theory Spec2Isabelle
  imports Main "HOL-Library.AList"
begin

section \<open>Data model\<close>

text \<open>
  Go strings are byte sequences: \<open>string\<close> (a list of 8-bit characters). A Go \<open>error\<close>
  value is opaque to the program, which only tests it against \<open>nil\<close>, logs and returns
  it; \<open>error option\<close> is the Go \<open>error\<close> interface with \<open>None\<close> for \<open>nil\<close>.
\<close>

datatype error = Err string

text \<open>\<open>os.PathSeparator\<close> is a constant of the target platform: slash, or backslash on Windows.\<close>

datatype platform = Unix | Windows

fun PathSeparator :: "platform \<Rightarrow> char" where
  "PathSeparator Unix = CHR ''/''"
| "PathSeparator Windows = CHR 0x5C"

definition isWindows :: "platform \<Rightarrow> bool" where
  "isWindows pf = (PathSeparator pf \<noteq> CHR ''/'')"

record ConsulConfig =
  Addr :: string
  DC :: string
  Token :: string
  KeyFile :: string
  CertFile :: string
  CAFile :: string
  UseTLS :: bool

text \<open>\<open>OnChange\<close> is a Go slice: \<open>None\<close> is the nil slice, \<open>Some []\<close> an empty non-nil one.\<close>

record MappingConfig =
  OnChange :: "string list option"
  OnChangeRaw :: string
  Prefix :: string
  Path :: string
  Keystore :: string

record WatchConfig =
  RunOnce :: bool
  Consul :: ConsulConfig
  Mappings :: "MappingConfig list"

text \<open>A \<open>consulapi.KVPairs\<close> value, reduced to the two fields the program reads: key and value.\<close>

type_synonym KVPairs = "(string \<times> string) list"

text \<open>
  A Go \<open>map[string]string\<close> is an association list with distinct keys, \<open>None\<close> being
  the nil map. Go leaves the iteration order of a map open; the model iterates in list order.
\<close>

type_synonym gomap = "(string \<times> string) list"

text \<open>
  Everything outside the repository is a parameter: the platform, the construction of the
  Consul client, the outcome of each filesystem call on a path, the gosecret decryption,
  the template engine and the on-change child process. \<open>None\<close> means the call succeeded.
\<close>

record extern =
  platform :: platform
  buildConsulClient :: "ConsulConfig \<Rightarrow> error option"
  Remove_err :: "string \<Rightarrow> error option"
  Mk_err :: "string \<Rightarrow> error option"
  Create_err :: "string \<Rightarrow> error option"
  Write_err :: "string \<Rightarrow> error option"
  Sync_err :: "string \<Rightarrow> error option"
  Close_err :: "string \<Rightarrow> error option"
  DecryptTags :: "string \<Rightarrow> string \<Rightarrow> error + string"
  Parse :: "string \<Rightarrow> string \<Rightarrow> error option"
  Execute :: "string \<Rightarrow> string \<Rightarrow> error + string"
  Run :: "string list \<Rightarrow> error option"

text \<open>The observable actions of one mapping's unit, in program order.\<close>

datatype event =
    EvWatchStarted string string
  | EvRemove string bool
  | EvSetEnv
  | EvMk string bool
  | EvCreate string bool
  | EvDecrypt bool
  | EvParse bool
  | EvExecute bool
  | EvWrite string string bool
  | EvSync string bool
  | EvClose string bool
  | EvRun "string list" bool
  | EvCloseQuit
  | EvLogError string

text \<open>How a call ends: it returns, it panics, or it waits on a channel for ever.\<close>

datatype outcome = Returned int "error option" | Panicked | Blocked

datatype step = Continue | Stop outcome

text \<open>The Reconciler's variables: \<open>env\<close>, and the regular files on disk (path to content).\<close>

record rstate =
  env :: "gomap option"
  files :: "string \<Rightarrow> string option"

section \<open>applyDefaults\<close>

definition applyDefaults :: "WatchConfig \<Rightarrow> WatchConfig" where
  "applyDefaults config =
     (if Addr (Consul config) = []
      then config\<lparr>Consul := (Consul config)\<lparr>Addr := ''127.0.0.1:8500''\<rparr>\<rparr>
      else config)"

section \<open>retryableList\<close>

text \<open>
  The wrapped closure is stateful: \<open>f n\<close> is what its call number \<open>n\<close> returns, either an
  error or the pairs with \<open>meta.LastIndex\<close>. The result carries the number of calls made
  so far and the sleeps, in seconds. Every path through the body of the \<open>for\<close> ends in a
  \<open>return\<close>, so the body runs once and the model has no recursion.
\<close>

type_synonym listResult = "error + (KVPairs \<times> nat)"

definition retryableList :: "(nat \<Rightarrow> listResult) \<Rightarrow> nat \<Rightarrow> listResult \<times> nat \<times> nat list" where
  "retryableList f n =
     (let i = (0::nat) in
      case f n of
        Inl e \<Rightarrow>
          if i \<ge> 3 then (Inl e, Suc n, [])
          else (let i' = i + 1 in (Inl e, Suc n, [i' * 2]))
      | Inr pm \<Rightarrow> (Inr pm, Suc n, []))"

section \<open>Normalisation of a mapping at unit start\<close>

text \<open>
  Lines 166 to 183 of \<open>watchMappingAndExec\<close>. Indexing an empty string panics: \<open>None\<close>.
  Character 34 is the double quote.
\<close>

definition trimPrefixSlash :: "string \<Rightarrow> string option" where
  "trimPrefixSlash p =
     (case p of
        [] \<Rightarrow> None
      | c # cs \<Rightarrow> Some (if c = CHR ''/'' then cs else p))"

definition addTrailingSeparator :: "platform \<Rightarrow> string \<Rightarrow> string option" where
  "addTrailingSeparator pf p =
     (if p = [] then None
      else Some (if last p \<noteq> PathSeparator pf then p @ [PathSeparator pf] else p))"

definition removeTrailingQuote :: "string \<Rightarrow> string option" where
  "removeTrailingQuote p =
     (if p = [] then None
      else Some (if last p = CHR 0x22 then butlast p else p))"

definition normalizeMapping :: "platform \<Rightarrow> MappingConfig \<Rightarrow> MappingConfig option" where
  "normalizeMapping pf m =
     (case trimPrefixSlash (Prefix m) of
        None \<Rightarrow> None
      | Some prefix' \<Rightarrow>
          (case addTrailingSeparator pf (Path m) of
             None \<Rightarrow> None
           | Some path1 \<Rightarrow>
               (case removeTrailingQuote path1 of
                  None \<Rightarrow> None
                | Some path2 \<Rightarrow> Some (m\<lparr>Prefix := prefix', Path := path2\<rparr>))))"

section \<open>Library functions the Reconciler calls\<close>

text \<open>
  \<open>strings.TrimPrefix\<close>, \<open>strings.TrimLeft(k, "/")\<close>, and the \<open>strings.Replace\<close> that
  turns every slash into a backslash.
\<close>

definition TrimPrefix :: "string \<Rightarrow> string \<Rightarrow> string" where
  "TrimPrefix s p = (if take (length p) s = p then drop (length p) s else s)"

definition TrimLeftSlash :: "string \<Rightarrow> string" where
  "TrimLeftSlash s = dropWhile (\<lambda>c. c = CHR ''/'') s"

definition ReplaceSlash :: "string \<Rightarrow> string" where
  "ReplaceSlash s = map (\<lambda>c. if c = CHR ''/'' then CHR 0x5C else c) s"

text \<open>
  \<open>s[:strings.LastIndex(s, c)]\<close> for a one-character \<open>c\<close>: when \<open>c\<close> does not occur,
  \<open>LastIndex\<close> is -1 and the slice expression panics (\<open>None\<close>).
\<close>

definition sliceToLastIndex :: "string \<Rightarrow> char \<Rightarrow> string option" where
  "sliceToLastIndex s c =
     (if c \<in> set s then Some (rev (tl (dropWhile (\<lambda>d. d \<noteq> c) (rev s)))) else None)"

text \<open>
  \<open>reflect.DeepEqual\<close> on two maps: both nil or both non-nil, the same length, and every
  key of the first is in the second with the same value. The second argument is always
  the map \<open>newEnv\<close> that \<open>make\<close> returned, which is not nil.
\<close>

fun DeepEqual :: "gomap option \<Rightarrow> gomap \<Rightarrow> bool" where
  "DeepEqual None b = False"
| "DeepEqual (Some a) b =
     (length a = length b \<and> list_all (\<lambda>(k, v). map_of b k = Some v) a)"

text \<open>What \<open>range\<close> over a map visits: nothing for the nil map.\<close>

fun entries :: "gomap option \<Rightarrow> gomap" where
  "entries None = []"
| "entries (Some a) = a"

text \<open>
  The filesystem calls. Whether a call fails is the parameter's choice; a successful
  \<open>os.Remove\<close> leaves no file at the path, a successful \<open>os.Create\<close> leaves an empty
  file there, and a successful write to the file just created leaves the bytes written.
  Directories are not part of the file map.
\<close>

type_synonym filemap = "string \<Rightarrow> string option"

definition os_Remove :: "extern \<Rightarrow> filemap \<Rightarrow> string \<Rightarrow> filemap \<times> error option" where
  "os_Remove x fs p =
     (case Remove_err x p of Some e \<Rightarrow> (fs, Some e) | None \<Rightarrow> (fs(p := None), None))"

definition os_Create :: "extern \<Rightarrow> filemap \<Rightarrow> string \<Rightarrow> filemap \<times> error option" where
  "os_Create x fs p =
     (case Create_err x p of Some e \<Rightarrow> (fs, Some e) | None \<Rightarrow> (fs(p \<mapsto> []), None))"

definition file_Write :: "extern \<Rightarrow> filemap \<Rightarrow> string \<Rightarrow> string \<Rightarrow> filemap \<times> error option" where
  "file_Write x fs p bytes =
     (case Write_err x p of Some e \<Rightarrow> (fs, Some e) | None \<Rightarrow> (fs(p \<mapsto> bytes), None))"

section \<open>The Reconciler: one pass of the loop of watchMappingAndExec\<close>

text \<open>Lines 211 to 219: the candidate environment, built pair by pair.\<close>

fun buildEnv :: "string \<Rightarrow> KVPairs \<Rightarrow> gomap \<Rightarrow> gomap" where
  "buildEnv prefix [] newEnv = newEnv"
| "buildEnv prefix ((key, val) # pairs) newEnv =
     buildEnv prefix pairs
       (AList.update (TrimLeftSlash (TrimPrefix key prefix)) val newEnv)"

text \<open>Lines 235 to 238 and 255 to 259: the file of a key.\<close>

definition keyfile :: "platform \<Rightarrow> string \<Rightarrow> string \<Rightarrow> string" where
  "keyfile pf path k =
     (let kf = path @ k in if isWindows pf then ReplaceSlash kf else kf)"

text \<open>Lines 229 to 247: the deletions. The accumulator is the file map and the trace.\<close>

definition removeKey :: "extern \<Rightarrow> string \<Rightarrow> string \<Rightarrow> filemap \<times> event list \<Rightarrow> filemap \<times> event list" where
  "removeKey x path k acc =
     (let kf = keyfile (platform x) path k in
      case os_Remove x (fst acc) kf of
        (fs', Some e) \<Rightarrow> (fs', snd acc @ [EvRemove kf False, EvLogError ''Failed to remove key''])
      | (fs', None) \<Rightarrow> (fs', snd acc @ [EvRemove kf True]))"

fun deleteLoop :: "extern \<Rightarrow> string \<Rightarrow> gomap \<Rightarrow> gomap \<Rightarrow> filemap \<times> event list \<Rightarrow> filemap \<times> event list" where
  "deleteLoop x path newEnv [] acc = acc"
| "deleteLoop x path newEnv ((k, v) # rest) acc =
     (if map_of newEnv k = None
      then deleteLoop x path newEnv rest (removeKey x path k acc)
      else deleteLoop x path newEnv rest acc)"

text \<open>Lines 292 to 332: the bytes to write, or \<open>None\<close> when the key is skipped.\<close>

definition transform :: "extern \<Rightarrow> string \<Rightarrow> string \<Rightarrow> string option \<times> event list" where
  "transform x keystore v =
     (if length keystore > 0 then
        (case DecryptTags x v keystore of
           Inl e \<Rightarrow> (None, [EvDecrypt False, EvLogError ''Failed to decrypt value''])
         | Inr data \<Rightarrow>
             (case Parse x keystore data of
                Some e \<Rightarrow> (None, [EvDecrypt True, EvParse False, EvLogError ''Could not parse template''])
              | None \<Rightarrow>
                  (case Execute x keystore data of
                     Inl e \<Rightarrow> (None, [EvDecrypt True, EvParse True, EvExecute False,
                                     EvLogError ''Could not execute template''])
                   | Inr out \<Rightarrow> (Some out, [EvDecrypt True, EvParse True, EvExecute True]))))
      else (Some v, []))"

text \<open>Lines 334 to 362: write, sync and close.\<close>

definition writeSyncClose :: "extern \<Rightarrow> string \<Rightarrow> string \<Rightarrow> filemap \<Rightarrow> filemap \<times> event list" where
  "writeSyncClose x kf bytes fs =
     (case file_Write x fs kf bytes of
        (fs', Some e) \<Rightarrow> (fs', [EvWrite kf bytes False, EvLogError ''Failed to write to file''])
      | (fs', None) \<Rightarrow>
          (fs', [EvWrite kf bytes True]
             @ (case Sync_err x kf of
                  Some e \<Rightarrow> [EvSync kf False, EvLogError ''Failed to sync file'']
                | None \<Rightarrow> [EvSync kf True])
             @ (case Close_err x kf of
                  Some e \<Rightarrow> [EvClose kf False, EvLogError ''Failed to close file'']
                | None \<Rightarrow> [EvClose kf True])))"

text \<open>Lines 261 to 275: the parent directory.\<close>

definition mkParent :: "extern \<Rightarrow> string \<Rightarrow> event list" where
  "mkParent x dir =
     (case Mk_err x dir of
        Some e \<Rightarrow> [EvMk dir False, EvLogError ''Failed to create parent directory for key'']
      | None \<Rightarrow> [EvMk dir True])"

text \<open>
  Lines 253 to 363, the body of the write loop for one key. The first component says
  whether the body panicked.
\<close>

definition writeKey :: "extern \<Rightarrow> MappingConfig \<Rightarrow> string \<times> string \<Rightarrow> filemap \<times> event list
    \<Rightarrow> bool \<times> filemap \<times> event list" where
  "writeKey x m kv acc =
     (let kf = keyfile (platform x) (Path m) (fst kv) in
      case (if isWindows (platform x) then sliceToLastIndex kf (CHR 0x5C)
            else sliceToLastIndex kf (CHR ''/'')) of
        None \<Rightarrow> (True, acc)
      | Some dir \<Rightarrow>
          (let tr1 = snd acc @ mkParent x dir in
           case os_Create x (fst acc) kf of
             (fs1, Some e) \<Rightarrow>
               (False, fs1, tr1 @ [EvCreate kf False, EvLogError ''Failed to create file''])
           | (fs1, None) \<Rightarrow>
               (case transform x (Keystore m) (snd kv) of
                  (None, tev) \<Rightarrow> (False, fs1, tr1 @ [EvCreate kf True] @ tev)
                | (Some buff, tev) \<Rightarrow>
                    (case writeSyncClose x kf buff fs1 of
                       (fs2, wev) \<Rightarrow> (False, fs2, tr1 @ [EvCreate kf True] @ tev @ wev)))))"

fun writeLoop :: "extern \<Rightarrow> MappingConfig \<Rightarrow> gomap \<Rightarrow> filemap \<times> event list
    \<Rightarrow> bool \<times> filemap \<times> event list" where
  "writeLoop x m [] acc = (False, acc)"
| "writeLoop x m (kv # rest) acc =
     (case writeKey x m kv acc of
        (True, acc') \<Rightarrow> (True, acc')
      | (False, acc') \<Rightarrow> writeLoop x m rest acc')"

text \<open>
  Lines 365 to 384: the on-change command, then the end of a pass. \<open>OnChange[0]\<close> on an
  empty slice panics; a failed \<open>cmd.Run\<close> returns 111 with the error; in run-once mode the
  pass closes \<open>quitCh\<close> and returns 0.
\<close>

definition runOnChange :: "extern \<Rightarrow> bool \<Rightarrow> MappingConfig \<Rightarrow> step \<times> event list" where
  "runOnChange x runOnce m =
     (let finish = (if runOnce then (Stop (Returned 0 None), [EvCloseQuit]) else (Continue, [])) in
      case OnChange m of
        None \<Rightarrow> finish
      | Some [] \<Rightarrow> (Stop Panicked, [])
      | Some (c # args) \<Rightarrow>
          (case Run x (c # args) of
             Some e \<Rightarrow> (Stop (Returned 111 (Some e)), [EvRun (c # args) False])
           | None \<Rightarrow> (fst finish, EvRun (c # args) True # snd finish)))"

text \<open>
  Lines 211 to 385: one pass of the loop over the pairs just received. The result is how
  the loop goes on, the new state and the events of this pass.
\<close>

definition cycle :: "extern \<Rightarrow> bool \<Rightarrow> MappingConfig \<Rightarrow> rstate \<Rightarrow> KVPairs
    \<Rightarrow> step \<times> rstate \<times> event list" where
  "cycle x runOnce m s pairs =
     (let newEnv = buildEnv (Prefix m) pairs [] in
      if DeepEqual (env s) newEnv then (Continue, s, [])
      else
        (case deleteLoop x (Path m) newEnv (entries (env s)) (files s, []) of
           (fs1, tr1) \<Rightarrow>
             (case writeLoop x m newEnv (fs1, tr1 @ [EvSetEnv]) of
                (True, fs2, tr2) \<Rightarrow> (Stop Panicked, \<lparr>env = Some newEnv, files = fs2\<rparr>, tr2)
              | (False, fs2, tr2) \<Rightarrow>
                  (case runOnChange x runOnce m of
                     (st, tr3) \<Rightarrow> (st, \<lparr>env = Some newEnv, files = fs2\<rparr>, tr2 @ tr3)))))"

text \<open>
  The \<open>select\<close> of lines 205 to 209 receives from \<open>pairCh\<close> or from \<open>errCh\<close>: the
  messages the Watcher sends, in order. With no message left the Reconciler waits.
\<close>

datatype msg = PairsMsg KVPairs | ErrMsg error

fun reconcileLoop :: "extern \<Rightarrow> bool \<Rightarrow> MappingConfig \<Rightarrow> msg list \<Rightarrow> rstate \<Rightarrow> event list
    \<Rightarrow> outcome \<times> rstate \<times> event list" where
  "reconcileLoop x runOnce m [] s tr = (Blocked, s, tr)"
| "reconcileLoop x runOnce m (ErrMsg e # rest) s tr = (Returned 0 (Some e), s, tr)"
| "reconcileLoop x runOnce m (PairsMsg pairs # rest) s tr =
     (case cycle x runOnce m s pairs of
        (Continue, s', ev) \<Rightarrow> reconcileLoop x runOnce m rest s' (tr @ ev)
      | (Stop out, s', ev) \<Rightarrow> (out, s', tr @ ev))"

text \<open>
  \<open>watchMappingAndExec\<close>: the client, the normalisation, the start of the Watcher, the
  loop, and the deferred \<open>close(quitCh)\<close> of lines 191 to 194, which runs when the function
  returns or panics after the \<open>defer\<close> statement, in continuous mode only.
\<close>

definition watchMappingAndExec :: "extern \<Rightarrow> WatchConfig \<Rightarrow> MappingConfig \<Rightarrow> filemap \<Rightarrow> msg list
    \<Rightarrow> outcome \<times> rstate \<times> event list" where
  "watchMappingAndExec x config mappingConfig fs0 msgs =
     (case buildConsulClient x (Consul config) of
        Some e \<Rightarrow> (Returned 0 (Some e), \<lparr>env = None, files = fs0\<rparr>, [])
      | None \<Rightarrow>
          (case normalizeMapping (platform x) mappingConfig of
             None \<Rightarrow> (Panicked, \<lparr>env = None, files = fs0\<rparr>, [])
           | Some m \<Rightarrow>
               (case reconcileLoop x (RunOnce config) m msgs \<lparr>env = None, files = fs0\<rparr>
                       [EvWatchStarted (Prefix m) (Path m)] of
                  (out, s, tr) \<Rightarrow>
                    (out, s, tr @ (if \<not> RunOnce config \<and> out \<noteq> Blocked then [EvCloseQuit] else [])))))"

section \<open>The Watcher\<close>

text \<open>
  \<open>watch\<close>, as the list of what it does. \<open>f n\<close> is the result of the call number \<open>n\<close> of
  \<open>client.KV().List\<close>; \<open>quit i\<close> says whether iteration \<open>i\<close> of the loop finds
  \<open>quitCh\<close> closed. The loop has no bound of its own: the fuel counts iterations, and a
  trace without \<open>WReturn\<close> is a Watcher still running.
\<close>

datatype wevent =
    WMk string
  | WList nat
  | WSendErr error
  | WSendPairs KVPairs
  | WSleep nat
  | WWarn
  | WReturn

fun watchLoop :: "(nat \<Rightarrow> listResult) \<Rightarrow> (nat \<Rightarrow> bool) \<Rightarrow> nat \<Rightarrow> nat \<Rightarrow> nat \<Rightarrow> nat \<Rightarrow> wevent list" where
  "watchLoop f quit 0 i n curIndex = []"
| "watchLoop f quit (Suc fuel) i n curIndex =
     (if quit i then [WReturn]
      else
        (case retryableList f n of
           (Inl e, n', sleeps) \<Rightarrow>
             WList curIndex # map WSleep sleeps @ WWarn # watchLoop f quit fuel (Suc i) n' curIndex
         | (Inr (pairs, lastIndex), n', sleeps) \<Rightarrow>
             WList curIndex # map WSleep sleeps @ WSendPairs pairs
               # watchLoop f quit fuel (Suc i) n' lastIndex))"

definition watch :: "(nat \<Rightarrow> listResult) \<Rightarrow> (nat \<Rightarrow> bool) \<Rightarrow> nat \<Rightarrow> string \<Rightarrow> wevent list" where
  "watch f quit fuel path =
     WMk path # WList 0 #
       (case f 0 of
          Inl e \<Rightarrow> [WSendErr e, WReturn]
        | Inr (pairs, lastIndex) \<Rightarrow> WSendPairs pairs # watchLoop f quit fuel 0 1 lastIndex)"

text \<open>The messages a Watcher's trace puts on \<open>pairCh\<close> and \<open>errCh\<close>.\<close>

fun sent :: "wevent list \<Rightarrow> msg list" where
  "sent [] = []"
| "sent (WSendErr e # ws) = ErrMsg e # sent ws"
| "sent (WSendPairs p # ws) = PairsMsg p # sent ws"
| "sent (w # ws) = sent ws"

section \<open>The Supervisor\<close>

text \<open>\<open>strings.Split(s, " ")\<close>.\<close>

fun splitSpace :: "string \<Rightarrow> string \<Rightarrow> string list" where
  "splitSpace cur [] = [cur]"
| "splitSpace cur (c # cs) =
     (if c = CHR '' '' then cur # splitSpace [] cs else splitSpace (cur @ [c]) cs)"

text \<open>Lines 73 to 75: the command line given as one string.\<close>

definition prepareMapping :: "MappingConfig \<Rightarrow> MappingConfig" where
  "prepareMapping mappingConfig =
     (if OnChangeRaw mappingConfig \<noteq> []
      then mappingConfig\<lparr>OnChange := Some (splitSpace [] (OnChangeRaw mappingConfig))\<rparr>
      else mappingConfig)"

text \<open>
  Lines 71 to 89, the unit of one mapping: it runs \<open>watchMappingAndExec\<close> and sends the
  return code on \<open>returnCodes\<close>, whatever the error. A unit that panics or waits for ever
  sends nothing. The result is how the unit ends, with the last state and the trace of
  its \<open>watchMappingAndExec\<close>.
\<close>

datatype unitEnd = Sent int | UnitPanicked | UnitBlocked

fun unitEndOf :: "outcome \<Rightarrow> unitEnd" where
  "unitEndOf (Returned returnCode err) = Sent returnCode"
| "unitEndOf Panicked = UnitPanicked"
| "unitEndOf Blocked = UnitBlocked"

definition mappingUnit :: "extern \<Rightarrow> WatchConfig \<Rightarrow> MappingConfig \<Rightarrow> filemap \<Rightarrow> msg list
    \<Rightarrow> unitEnd \<times> rstate \<times> event list" where
  "mappingUnit x config mappingConfig fs0 msgs =
     (case watchMappingAndExec x config (prepareMapping mappingConfig) fs0 msgs of
        (out, s, tr) \<Rightarrow> (unitEndOf out, s, tr))"

text \<open>
  Lines 92 to 100. \<open>collectCodes n codes failures\<close> is the loop that receives \<open>n\<close> codes
  from \<open>returnCodes\<close>, where \<open>codes\<close> are the codes the units send, in order of arrival;
  with a code still to receive and none left to arrive it waits for ever (\<open>None\<close>).
\<close>

fun collectCodes :: "nat \<Rightarrow> int list \<Rightarrow> bool \<Rightarrow> bool option" where
  "collectCodes 0 codes failures = Some failures"
| "collectCodes (Suc n) [] failures = None"
| "collectCodes (Suc n) (returnCode # codes) failures =
     collectCodes n codes (if returnCode \<noteq> 0 then True else failures)"

text \<open>
  \<open>watchAndExec\<close>, lines 63 to 107. Unit \<open>i\<close> runs on mapping \<open>i\<close> of the configuration
  with its defaults applied; \<open>inputs i\<close> is what that unit meets, the files and the
  messages of its Watcher. The units run side by side: \<open>order\<close> lists them in the order
  in which they end, and the codes arrive in that order. The program ends in one of three
  ways: \<open>watchAndExec\<close> returns a code; an unrecovered panic of a unit ends the whole
  process, and with it every other unit; or the receive loop waits for ever for a unit
  that never sends.
\<close>

datatype exit = Exit int | Crash | Hang

definition unitEnds :: "extern \<Rightarrow> WatchConfig \<Rightarrow> (nat \<Rightarrow> filemap \<times> msg list) \<Rightarrow> unitEnd list" where
  "unitEnds x config inputs =
     map (\<lambda>i. fst (mappingUnit x config (Mappings config ! i) (fst (inputs i)) (snd (inputs i))))
       [0..<length (Mappings config)]"

definition arrivals :: "unitEnd list \<Rightarrow> nat list \<Rightarrow> int list" where
  "arrivals ends order =
     concat (map (\<lambda>i. case ends ! i of
                        Sent returnCode \<Rightarrow> [returnCode]
                      | UnitPanicked \<Rightarrow> []
                      | UnitBlocked \<Rightarrow> []) order)"

definition watchAndExec :: "extern \<Rightarrow> WatchConfig \<Rightarrow> (nat \<Rightarrow> filemap \<times> msg list) \<Rightarrow> nat list \<Rightarrow> exit" where
  "watchAndExec x config inputs order =
     (let config' = applyDefaults config;
          ends = unitEnds x config' inputs in
      if UnitPanicked \<in> set ends then Crash
      else
        (case collectCodes (length (Mappings config')) (arrivals ends order) False of
           None \<Rightarrow> Hang
         | Some failures \<Rightarrow> Exit (if failures then - 1 else 0)))"

section \<open>Concrete inputs\<close>

text \<open>
  A world in which every external call succeeds, decryption and the template leave the
  value as it is; a mapping with neither command nor keystore; a configuration with no
  TLS material. The instances below are these, with single fields changed.
\<close>

definition quiet :: "platform \<Rightarrow> extern" where
  "quiet pf = \<lparr>platform = pf, buildConsulClient = (\<lambda>c. None), Remove_err = (\<lambda>p. None),
     Mk_err = (\<lambda>p. None), Create_err = (\<lambda>p. None), Write_err = (\<lambda>p. None),
     Sync_err = (\<lambda>p. None), Close_err = (\<lambda>p. None), DecryptTags = (\<lambda>v ks. Inr v),
     Parse = (\<lambda>ks d. None), Execute = (\<lambda>ks d. Inr d), Run = (\<lambda>argv. None)\<rparr>"

definition mapping0 :: "string \<Rightarrow> string \<Rightarrow> MappingConfig" where
  "mapping0 prefix path =
     \<lparr>OnChange = None, OnChangeRaw = [], Prefix = prefix, Path = path, Keystore = []\<rparr>"

definition config0 :: "bool \<Rightarrow> MappingConfig list \<Rightarrow> WatchConfig" where
  "config0 once ms = \<lparr>RunOnce = once,
     Consul = \<lparr>Addr = [], DC = [], Token = [], KeyFile = [], CertFile = [], CAFile = [],
                UseTLS = False\<rparr>,
     Mappings = ms\<rparr>"

section \<open>Reading a trace\<close>

text \<open>
  The events of the deletion loop (a removal, and the log of a failed one) and the events
  of the write loop (directory, create, transform, write, sync, close, and their logs).
\<close>

fun isDeleting :: "event \<Rightarrow> bool" where
  "isDeleting (EvRemove p ok) = True"
| "isDeleting (EvLogError msg) = (msg = ''Failed to remove key'')"
| "isDeleting e = False"

fun isCreate :: "event \<Rightarrow> bool" where
  "isCreate (EvCreate p ok) = True"
| "isCreate e = False"

fun isWriting :: "event \<Rightarrow> bool" where
  "isWriting (EvMk p ok) = True"
| "isWriting (EvCreate p ok) = True"
| "isWriting (EvDecrypt ok) = True"
| "isWriting (EvParse ok) = True"
| "isWriting (EvExecute ok) = True"
| "isWriting (EvWrite p b ok) = True"
| "isWriting (EvSync p ok) = True"
| "isWriting (EvClose p ok) = True"
| "isWriting (EvLogError msg) = (msg \<noteq> ''Failed to remove key'')"
| "isWriting e = False"

section \<open>The retry policy\<close>

text \<open>
  Whatever the wrapped call does, \<open>retryableList\<close> makes one call and returns what that
  call returned; it sleeps 2 seconds first when the call failed.
\<close>

lemma retryableList_one_call:
  "retryableList f n = (f n, Suc n, case f n of Inl e \<Rightarrow> [2] | Inr pm \<Rightarrow> [])"
  by (simp add: retryableList_def split: sum.splits)

text \<open>
  C1 (the code departs from the claim). The claim: a read that fails on every attempt is
  tried four times, with sleeps of 2, 4 and 6 seconds, and a read that succeeds on attempt
  \<open>k \<le> 4\<close> returns that result. The code: \<open>retryableList\<close> calls the read once; when
  that call fails it sleeps 2 seconds and returns the error of this first call, also when
  the second call would have succeeded.
\<close>

theorem retryableList_single_attempt:
  "retryableList (\<lambda>n. Inl (Err ''refused'')) 0 = (Inl (Err ''refused''), 1, [2]) \<and>
   retryableList (\<lambda>n. if n = 0 then Inl (Err ''refused'') else Inr ([(''a/b'', ''1'')], 7)) 0
     = (Inl (Err ''refused''), 1, [2])"
  by (simp add: retryableList_def)

section \<open>The first read\<close>

text \<open>
  C2 (the code departs from the claim). The claim: when the Watcher's first read fails, the
  error goes to the error channel, the Watcher stops and the unit ends with a nonzero
  code, so that the aggregate is a failure. The code: the error is sent and the Watcher
  returns, but \<open>watchMappingAndExec\<close> returns the error with code 0, the unit sends that
  0, and the Supervisor of this single mapping returns 0.
\<close>

theorem first_read_error_returns_zero:
  "watch (\<lambda>n. Inl (Err ''connection refused'')) (\<lambda>i. False) 5 ''/out/''
     = [WMk ''/out/'', WList 0, WSendErr (Err ''connection refused''), WReturn] \<and>
   sent (watch (\<lambda>n. Inl (Err ''connection refused'')) (\<lambda>i. False) 5 ''/out/'')
     = [ErrMsg (Err ''connection refused'')] \<and>
   fst (watchMappingAndExec (quiet Unix) (config0 False [mapping0 ''app'' ''/out/''])
          (mapping0 ''app'' ''/out/'') Map.empty [ErrMsg (Err ''connection refused'')])
     = Returned 0 (Some (Err ''connection refused'')) \<and>
   fst (mappingUnit (quiet Unix) (config0 False [mapping0 ''app'' ''/out/''])
          (mapping0 ''app'' ''/out/'') Map.empty [ErrMsg (Err ''connection refused'')]) = Sent 0 \<and>
   watchAndExec (quiet Unix) (config0 False [mapping0 ''app'' ''/out/''])
          (\<lambda>i. (Map.empty, [ErrMsg (Err ''connection refused'')])) [0] = Exit 0"
  by (simp add: watch_def mappingUnit_def prepareMapping_def watchMappingAndExec_def
      normalizeMapping_def trimPrefixSlash_def addTrailingSeparator_def removeTrailingQuote_def
      quiet_def mapping0_def config0_def watchAndExec_def unitEnds_def arrivals_def
      applyDefaults_def)

section \<open>Normalisation\<close>

lemma PathSeparator_not_quote: "PathSeparator pf \<noteq> CHR 0x22"
  by (cases pf) simp_all

text \<open>
  Once the separator is ensured the path ends in it, so the test for a trailing quote
  that follows never succeeds: normalisation only ever appends the separator.
\<close>

lemma normalizeMapping_Path:
  "Prefix m \<noteq> [] \<Longrightarrow> Path m \<noteq> [] \<Longrightarrow>
   map_option Path (normalizeMapping pf m)
     = Some (if last (Path m) = PathSeparator pf then Path m else Path m @ [PathSeparator pf])"
  by (cases "Prefix m")
    (simp_all add: normalizeMapping_def trimPrefixSlash_def addTrailingSeparator_def
      removeTrailingQuote_def PathSeparator_not_quote)

lemma normalizeMapping_None:
  "normalizeMapping pf m = None \<longleftrightarrow> Prefix m = [] \<or> Path m = []"
  by (cases "Prefix m")
    (simp_all add: normalizeMapping_def trimPrefixSlash_def addTrailingSeparator_def
      removeTrailingQuote_def)

text \<open>
  C5 (the code departs from the claim). The claim: a stray trailing quote in a configured
  root path is stripped before the path is used. The code: the quote stays, and the
  separator is appended after it. So it is for a path made of \<open>/data\<close> and a quote on
  Unix, and on Windows for a directory with a space in its name followed by a quote, the
  case the comment of line 178 describes.
\<close>

theorem trailing_quote_kept:
  "map_option Path (normalizeMapping Unix (mapping0 ''app'' (''/data'' @ [CHR 0x22])))
     = Some (''/data'' @ [CHR 0x22] @ ''/'') \<and>
   map_option Path
     (normalizeMapping Windows (mapping0 ''app'' (''C:'' @ [CHR 0x5C] @ ''my dir'' @ [CHR 0x22])))
     = Some (''C:'' @ [CHR 0x5C] @ ''my dir'' @ [CHR 0x22, CHR 0x5C])"
  by (simp add: normalizeMapping_def trimPrefixSlash_def addTrailingSeparator_def
      removeTrailingQuote_def mapping0_def)

text \<open>
  C10, as stated: every mapping with an empty prefix or path makes \<open>watchMappingAndExec\<close>
  panic. It does not when the Consul client cannot be built, here because the configured
  CA file cannot be read: the function has returned code 0 with that error before it
  looks at the prefix.
\<close>

theorem empty_prefix_without_client_counterexample:
  "Prefix (mapping0 [] ''/out'') = [] \<and>
   fst (watchMappingAndExec
          ((quiet Unix)\<lparr>buildConsulClient :=
             (\<lambda>c. if CAFile c \<noteq> [] then Some (Err ''open ca.pem: no such file'') else None)\<rparr>)
          ((config0 False [])\<lparr>Consul := (Consul (config0 False []))\<lparr>CAFile := ''ca.pem''\<rparr>\<rparr>)
          (mapping0 [] ''/out'') Map.empty [])
     = Returned 0 (Some (Err ''open ca.pem: no such file''))"
  by (simp add: watchMappingAndExec_def quiet_def mapping0_def config0_def)

text \<open>
  C10, amended: once the Consul client is built, a mapping whose prefix or path is empty
  makes \<open>watchMappingAndExec\<close> panic before the Watcher is started and before any message
  is read (the trace is empty, the state untouched); when the client cannot be built the
  function returns code 0 with the error instead.
\<close>

theorem empty_prefix_or_path_panics:
  "(buildConsulClient x (Consul config) = None \<and> (Prefix m = [] \<or> Path m = [])
      \<longrightarrow> watchMappingAndExec x config m fs msgs = (Panicked, \<lparr>env = None, files = fs\<rparr>, [])) \<and>
   (buildConsulClient x (Consul config) = Some e
      \<longrightarrow> watchMappingAndExec x config m fs msgs
            = (Returned 0 (Some e), \<lparr>env = None, files = fs\<rparr>, []))"
  using normalizeMapping_None [of "platform x" m]
  by (auto simp add: watchMappingAndExec_def)

theorem empty_prefix_or_path_panics_witness:
  "watchMappingAndExec (quiet Unix) (config0 False []) (mapping0 [] ''/out'') Map.empty
       [PairsMsg [(''a'', ''1'')]]
     = (Panicked, \<lparr>env = None, files = Map.empty\<rparr>, []) \<and>
   watchMappingAndExec (quiet Windows) (config0 True []) (mapping0 ''app'' []) Map.empty
       [PairsMsg [(''a'', ''1'')]]
     = (Panicked, \<lparr>env = None, files = Map.empty\<rparr>, [])"
  using empty_prefix_or_path_panics [of "quiet Unix" "config0 False []" "mapping0 [] ''/out''"
          Map.empty "[PairsMsg [(''a'', ''1'')]]"]
        empty_prefix_or_path_panics [of "quiet Windows" "config0 True []" "mapping0 ''app'' []"
          Map.empty "[PairsMsg [(''a'', ''1'')]]"]
  by (simp add: quiet_def mapping0_def config0_def)

section \<open>The loops of a pass\<close>

lemma removeKey_eq:
  "removeKey x path k acc =
     (if Remove_err x (keyfile (platform x) path k) = None
      then ((fst acc)(keyfile (platform x) path k := None), snd acc @ [EvRemove (keyfile (platform x) path k) True])
      else (fst acc, snd acc @ [EvRemove (keyfile (platform x) path k) False, EvLogError ''Failed to remove key'']))"
  by (auto simp add: removeKey_def os_Remove_def Let_def split: option.splits)

lemma deleteLoop_trace:
  "snd (deleteLoop x path newEnv es acc) =
     snd acc @ concat (map (\<lambda>k. if Remove_err x (keyfile (platform x) path k) = None
                              then [EvRemove (keyfile (platform x) path k) True]
                              else [EvRemove (keyfile (platform x) path k) False,
                                    EvLogError ''Failed to remove key''])
                        (filter (\<lambda>k. map_of newEnv k = None) (map fst es)))"
  by (induction es arbitrary: acc) (auto simp add: removeKey_eq)

lemma removeKey_files:
  "fst (removeKey x path k acc) p =
     (if p = keyfile (platform x) path k \<and> Remove_err x p = None then None else fst acc p)"
  by (cases "Remove_err x (keyfile (platform x) path k)")
    (auto simp add: removeKey_def os_Remove_def Let_def)

lemma deleteLoop_files:
  "fst (deleteLoop x path newEnv es acc) p =
     (if p \<in> set (map (keyfile (platform x) path) (filter (\<lambda>k. map_of newEnv k = None) (map fst es)))
         \<and> Remove_err x p = None
      then None else fst acc p)"
proof (induction es arbitrary: acc)
  case Nil
  then show ?case by simp
next
  case (Cons kv es)
  obtain k v where kv: "kv = (k, v)" by (cases kv) auto
  show ?case
  proof (cases "map_of newEnv k")
    case None
    then show ?thesis
      using Cons.IH [of "removeKey x path k acc"] by (auto simp add: kv removeKey_files)
  next
    case (Some y)
    then show ?thesis
      using Cons.IH [of acc] by (simp add: kv)
  qed
qed

lemma transform_events: "list_all isWriting (snd (transform x ks v))"
  by (simp add: transform_def split: sum.splits option.splits)

lemma writeSyncClose_events: "list_all isWriting (snd (writeSyncClose x kf b fs))"
  by (simp add: writeSyncClose_def file_Write_def split: option.splits)

lemma mkParent_events: "list_all isWriting (mkParent x dir)"
  by (simp add: mkParent_def split: option.splits)

text \<open>The body of the write loop, case by case.\<close>

lemma writeKey_eq:
  "writeKey x m kv acc =
     (let kf = keyfile (platform x) (Path m) (fst kv) in
      case sliceToLastIndex kf (PathSeparator (platform x)) of
        None \<Rightarrow> (True, acc)
      | Some dir \<Rightarrow>
          if Create_err x kf \<noteq> None
          then (False, fst acc, snd acc @ mkParent x dir
                  @ [EvCreate kf False, EvLogError ''Failed to create file''])
          else (case fst (transform x (Keystore m) (snd kv)) of
                  None \<Rightarrow> (False, (fst acc)(kf \<mapsto> []),
                            snd acc @ mkParent x dir @ [EvCreate kf True]
                              @ snd (transform x (Keystore m) (snd kv)))
                | Some buff \<Rightarrow>
                    (False, fst (writeSyncClose x kf buff ((fst acc)(kf \<mapsto> []))),
                     snd acc @ mkParent x dir @ [EvCreate kf True]
                       @ snd (transform x (Keystore m) (snd kv))
                       @ snd (writeSyncClose x kf buff ((fst acc)(kf \<mapsto> []))))))"
  by (cases "platform x")
    (auto simp add: writeKey_def Let_def os_Create_def isWindows_def
      split: option.splits prod.splits)

lemma writeKey_trace:
  "\<exists>w. snd (snd (writeKey x m kv acc)) = snd acc @ w \<and> list_all isWriting w"
  using transform_events [of x "Keystore m" "snd kv"] mkParent_events [of x]
    writeSyncClose_events [of x]
  by (simp add: writeKey_eq Let_def split: option.splits)

lemma writeLoop_trace:
  "\<exists>w. snd (snd (writeLoop x m es acc)) = snd acc @ w \<and> list_all isWriting w"
proof (induction es arbitrary: acc)
  case Nil
  then show ?case by simp
next
  case (Cons kv es)
  obtain b acc' where r: "writeKey x m kv acc = (b, acc')"
    by (cases "writeKey x m kv acc") auto
  from writeKey_trace [of x m kv acc] r obtain w1 where
    w1: "snd acc' = snd acc @ w1" "list_all isWriting w1" by auto
  show ?case
  proof (cases b)
    case True
    with r w1 show ?thesis by simp
  next
    case False
    from Cons.IH [of acc'] obtain w2 where
      "snd (snd (writeLoop x m es acc')) = snd acc' @ w2" "list_all isWriting w2" by auto
    with r w1 False show ?thesis by simp
  qed
qed

lemma writeSyncClose_files:
  "fst (writeSyncClose x kf b fs) = (if Write_err x kf = None then fs(kf \<mapsto> b) else fs)"
  by (simp add: writeSyncClose_def file_Write_def split: option.splits)

lemma writeKey_files_other:
  "p \<noteq> keyfile (platform x) (Path m) (fst kv) \<Longrightarrow> fst (snd (writeKey x m kv acc)) p = fst acc p"
  by (simp add: writeKey_eq Let_def writeSyncClose_files split: option.splits)

lemma writeKey_files_keep:
  "fst acc p \<noteq> None \<Longrightarrow> fst (snd (writeKey x m kv acc)) p \<noteq> None"
  by (simp add: writeKey_eq Let_def writeSyncClose_files split: option.splits)

lemma writeLoop_files_other:
  "p \<notin> keyfile (platform x) (Path m) ` fst ` set es \<Longrightarrow>
   fst (snd (writeLoop x m es acc)) p = fst acc p"
proof (induction es arbitrary: acc)
  case Nil
  then show ?case by simp
next
  case (Cons kv es)
  then have p: "p \<noteq> keyfile (platform x) (Path m) (fst kv)"
    and ps: "p \<notin> keyfile (platform x) (Path m) ` fst ` set es" by auto
  obtain b acc' where r: "writeKey x m kv acc = (b, acc')"
    by (cases "writeKey x m kv acc") auto
  from writeKey_files_other [OF p, of acc] r have "fst acc' p = fst acc p" by simp
  with Cons.IH [OF ps, of acc'] r show ?case by (cases b) simp_all
qed

lemma writeLoop_files_keep:
  "fst acc p \<noteq> None \<Longrightarrow> fst (snd (writeLoop x m es acc)) p \<noteq> None"
proof (induction es arbitrary: acc)
  case Nil
  then show ?case by simp
next
  case (Cons kv es)
  obtain b acc' where r: "writeKey x m kv acc = (b, acc')"
    by (cases "writeKey x m kv acc") auto
  from writeKey_files_keep [OF Cons.prems, of x m kv] r have "fst acc' p \<noteq> None" by simp
  with Cons.IH [of acc'] r show ?case by (cases b) simp_all
qed

lemma deleteLoop_events:
  "\<exists>d. snd (deleteLoop x path newEnv es acc) = snd acc @ d \<and> list_all isDeleting d"
  by (auto simp add: deleteLoop_trace list_all_iff)

lemma distinct_buildEnv:
  "distinct (map fst acc) \<Longrightarrow> distinct (map fst (buildEnv prefix pairs acc))"
  by (induction prefix pairs acc rule: buildEnv.induct) (simp_all add: distinct_update)

lemma DeepEqual_refl: "distinct (map fst a) \<Longrightarrow> DeepEqual (Some a) a"
  by (auto simp add: list_all_iff)

lemma length_eq_card_dom:
  "distinct (map fst a) \<Longrightarrow> length a = card (dom (map_of a))"
  using distinct_card [of "map fst a"] by (simp add: dom_map_of_conv_image_fst)

lemma DeepEqual_iff_map_of:
  assumes "distinct (map fst a)" and "distinct (map fst b)"
  shows "DeepEqual (Some a) b \<longleftrightarrow> map_of a = map_of b"
proof
  assume eq: "map_of a = map_of b"
  have "length a = length b"
    using assms eq by (simp add: length_eq_card_dom)
  moreover have "map_of b k = Some v" if "(k, v) \<in> set a" for k v
    using that assms(1) eq by (metis map_of_eq_Some_iff)
  ultimately show "DeepEqual (Some a) b"
    by (auto simp add: list_all_iff)
next
  assume de: "DeepEqual (Some a) b"
  then have len: "length a = length b"
    and sub: "\<And>k v. (k, v) \<in> set a \<Longrightarrow> map_of b k = Some v"
    by (auto simp add: list_all_iff)
  have le: "map_of a \<subseteq>\<^sub>m map_of b"
    unfolding map_le_def using sub assms(1) by (auto dest: map_of_SomeD)
  then have "dom (map_of a) \<subseteq> dom (map_of b)"
    by (rule map_le_implies_dom_le)
  moreover have "card (dom (map_of a)) = card (dom (map_of b))"
    using len assms by (simp add: length_eq_card_dom)
  ultimately have "dom (map_of a) = dom (map_of b)"
    by (simp add: card_subset_eq finite_dom_map_of)
  with le show "map_of a = map_of b"
    by (metis map_le_antisym map_le_def)
qed

lemma cycle_rejected:
  "DeepEqual (env s) (buildEnv (Prefix m) pairs []) \<Longrightarrow> cycle x once m s pairs = (Continue, s, [])"
  by (simp add: cycle_def)

lemma cycle_accepted:
  assumes "\<not> DeepEqual (env s) (buildEnv (Prefix m) pairs [])"
  shows "cycle x once m s pairs =
     (let ne = buildEnv (Prefix m) pairs [];
          dl = deleteLoop x (Path m) ne (entries (env s)) (files s, []);
          wl = writeLoop x m ne (fst dl, snd dl @ [EvSetEnv])
      in if fst wl
         then (Stop Panicked, \<lparr>env = Some ne, files = fst (snd wl)\<rparr>, snd (snd wl))
         else (fst (runOnChange x once m), \<lparr>env = Some ne, files = fst (snd wl)\<rparr>,
               snd (snd wl) @ snd (runOnChange x once m)))"
  using assms
  by (auto simp add: cycle_def Let_def split: prod.splits bool.splits)






lemma isWriting_not_deleting: "isWriting e \<Longrightarrow> \<not> isDeleting e \<and> e \<noteq> EvSetEnv"
  by (cases e) auto

lemma runOnChange_events:
  "list_all (\<lambda>e. \<not> isDeleting e \<and> e \<noteq> EvSetEnv) (snd (runOnChange x once m))"
  by (simp add: runOnChange_def Let_def split: option.splits list.splits)

text \<open>The trace of an accepted pass: the deletions, the replacement of \<open>env\<close>, the rest.\<close>

lemma cycle_accepted_trace:
  assumes "\<not> DeepEqual (env s) (buildEnv (Prefix m) pairs [])"
  shows "\<exists>r. snd (snd (cycle x once m s pairs))
            = snd (deleteLoop x (Path m) (buildEnv (Prefix m) pairs []) (entries (env s)) (files s, []))
              @ EvSetEnv # r
          \<and> list_all (\<lambda>e. \<not> isDeleting e \<and> e \<noteq> EvSetEnv) r"
proof -
  define ne where "ne = buildEnv (Prefix m) pairs []"
  define dl where "dl = deleteLoop x (Path m) ne (entries (env s)) (files s, [])"
  define wl where "wl = writeLoop x m ne (fst dl, snd dl @ [EvSetEnv])"
  obtain w where w: "snd (snd wl) = snd dl @ EvSetEnv # w" "list_all isWriting w"
    using writeLoop_trace [of x m ne "(fst dl, snd dl @ [EvSetEnv])"]
    by (auto simp add: wl_def)
  have w': "list_all (\<lambda>e. \<not> isDeleting e \<and> e \<noteq> EvSetEnv) w"
    using w(2) isWriting_not_deleting by (auto simp add: list_all_iff)
  have cy: "snd (snd (cycle x once m s pairs)) =
      (if fst wl then snd (snd wl) else snd (snd wl) @ snd (runOnChange x once m))"
    using cycle_accepted [OF assms, of x once]
    by (simp add: Let_def ne_def dl_def wl_def)
  show ?thesis
  proof (cases "fst wl")
    case True
    with cy w w' show ?thesis by (simp add: ne_def dl_def)
  next
    case False
    with cy w w' runOnChange_events [of x once m] show ?thesis
      by (simp add: ne_def dl_def)
  qed
qed

lemma cycle_accepted_env:
  assumes "\<not> DeepEqual (env s) (buildEnv (Prefix m) pairs [])"
  shows "env (fst (snd (cycle x once m s pairs))) = Some (buildEnv (Prefix m) pairs [])"
  using cycle_accepted [OF assms, of x once] by (simp add: Let_def)

lemma cycle_accepted_files:
  assumes "\<not> DeepEqual (env s) (buildEnv (Prefix m) pairs [])"
  shows "\<exists>tr. files (fst (snd (cycle x once m s pairs)))
     = fst (snd (writeLoop x m (buildEnv (Prefix m) pairs [])
          (fst (deleteLoop x (Path m) (buildEnv (Prefix m) pairs []) (entries (env s)) (files s, [])), tr)))"
  using cycle_accepted [OF assms, of x once] by (auto simp add: Let_def)


section \<open>Evaluation of concrete runs\<close>

lemmas run_defs = cycle_def watchMappingAndExec_def normalizeMapping_def trimPrefixSlash_def
  addTrailingSeparator_def removeTrailingQuote_def keyfile_def isWindows_def TrimPrefix_def
  TrimLeftSlash_def ReplaceSlash_def sliceToLastIndex_def os_Remove_def os_Create_def
  file_Write_def removeKey_def transform_def writeSyncClose_def mkParent_def writeKey_def
  runOnChange_def quiet_def mapping0_def config0_def Let_def


section \<open>Idempotence\<close>

text \<open>
  C3, as stated: in every state of the Reconciler a snapshot whose candidate environment
  equals the current one causes no command execution. A Reconciler that has not yet
  accepted a snapshot holds the nil map, which has no entries; an empty first snapshot
  gives a candidate with no entries either, and yet the pass is accepted and the on-change
  command runs (\<open>reflect.DeepEqual\<close> tells the nil map from an empty one).
\<close>

theorem empty_first_snapshot_runs_command_counterexample:
  "entries (env \<lparr>env = None, files = Map.empty\<rparr>) = buildEnv ''app'' [] [] \<and>
   cycle (quiet Unix) False ((mapping0 ''app'' ''/out/'')\<lparr>OnChange := Some [''reload'']\<rparr>)
      \<lparr>env = None, files = Map.empty\<rparr> []
     = (Continue, \<lparr>env = Some [], files = Map.empty\<rparr>, [EvSetEnv, EvRun [''reload''] True])"
  by (simp add: run_defs)


text \<open>In the state that holds the nil map every snapshot is accepted.\<close>

lemma cycle_nil_accepted:
  assumes "env s = None"
  shows "env (fst (snd (cycle x once m s pairs))) = Some (buildEnv (Prefix m) pairs [])
    \<and> (\<exists>r. snd (snd (cycle x once m s pairs)) = EvSetEnv # r)"
proof -
  have acc: "\<not> DeepEqual (env s) (buildEnv (Prefix m) pairs [])"
    using assms by simp
  from cycle_accepted_trace [OF acc, of x once] assms
  have "\<exists>r. snd (snd (cycle x once m s pairs)) = EvSetEnv # r" by auto
  with cycle_accepted_env [OF acc, of x once] show ?thesis by simp
qed

lemma cycle_nil_empty:
  "env s = None \<Longrightarrow>
   cycle x once m s [] = (fst (runOnChange x once m), \<lparr>env = Some [], files = files s\<rparr>,
                           EvSetEnv # snd (runOnChange x once m))"
  by (simp add: cycle_def split: prod.splits)

lemma runOnChange_runs:
  "OnChange m = Some argv \<Longrightarrow> argv \<noteq> [] \<Longrightarrow>
   EvRun argv (Run x argv = None) \<in> set (snd (runOnChange x once m))"
  by (cases argv) (auto simp add: runOnChange_def Let_def split: option.splits)

text \<open>
  C3, amended: in every state that holds an environment (a non-nil map, as after any
  accepted snapshot), a snapshot whose candidate has the same keys with the same values
  changes nothing: the state is the same and no removal, directory, create, transform,
  write or command event happens. And from any state, a snapshot delivered again right
  after a pass that went on does nothing on the second delivery. In the state that holds
  the nil map every snapshot is accepted: its candidate replaces the environment. An
  empty one there removes and writes nothing, and the on-change command, when there is
  one, is run.
\<close>

theorem unchanged_snapshot_is_noop:
  "(env s = Some e \<and> distinct (map fst e) \<and> map_of e = map_of (buildEnv (Prefix m) pairs [])
      \<longrightarrow> cycle x once m s pairs = (Continue, s, [])) \<and>
   (fst (cycle x once m s pairs) = Continue
      \<longrightarrow> cycle x once m (fst (snd (cycle x once m s pairs))) pairs
            = (Continue, fst (snd (cycle x once m s pairs)), [])) \<and>
   (env s = None
      \<longrightarrow> env (fst (snd (cycle x once m s pairs))) = Some (buildEnv (Prefix m) pairs [])
          \<and> (\<exists>r. snd (snd (cycle x once m s pairs)) = EvSetEnv # r)
          \<and> cycle x once m s [] = (fst (runOnChange x once m), \<lparr>env = Some [], files = files s\<rparr>,
                                     EvSetEnv # snd (runOnChange x once m))
          \<and> (\<forall>argv. OnChange m = Some argv \<and> argv \<noteq> []
                \<longrightarrow> EvRun argv (Run x argv = None) \<in> set (snd (snd (cycle x once m s [])))))"
proof (intro conjI impI allI)
  assume a: "env s = Some e \<and> distinct (map fst e) \<and> map_of e = map_of (buildEnv (Prefix m) pairs [])"
  have "distinct (map fst (buildEnv (Prefix m) pairs []))"
    by (simp add: distinct_buildEnv)
  with a have "DeepEqual (Some e) (buildEnv (Prefix m) pairs [])"
    using DeepEqual_iff_map_of [of e "buildEnv (Prefix m) pairs []"] by blast
  with a have "DeepEqual (env s) (buildEnv (Prefix m) pairs [])"
    by metis
  then show "cycle x once m s pairs = (Continue, s, [])"
    by (rule cycle_rejected)
next
  assume c: "fst (cycle x once m s pairs) = Continue"
  show "cycle x once m (fst (snd (cycle x once m s pairs))) pairs
            = (Continue, fst (snd (cycle x once m s pairs)), [])"
  proof (cases "DeepEqual (env s) (buildEnv (Prefix m) pairs [])")
    case True
    then show ?thesis by (simp add: cycle_rejected)
  next
    case False
    have "DeepEqual (Some (buildEnv (Prefix m) pairs [])) (buildEnv (Prefix m) pairs [])"
      by (rule DeepEqual_refl) (simp add: distinct_buildEnv)
    then have "DeepEqual (env (fst (snd (cycle x once m s pairs)))) (buildEnv (Prefix m) pairs [])"
      by (simp add: cycle_accepted_env [OF False])
    then show ?thesis by (rule cycle_rejected)
  qed
next
  assume n: "env s = None"
  from cycle_nil_accepted [OF n, of x once m pairs]
  show "env (fst (snd (cycle x once m s pairs))) = Some (buildEnv (Prefix m) pairs [])"
    and "\<exists>r. snd (snd (cycle x once m s pairs)) = EvSetEnv # r" by simp_all
  from cycle_nil_empty [OF n]
  show "cycle x once m s [] = (fst (runOnChange x once m), \<lparr>env = Some [], files = files s\<rparr>,
                                     EvSetEnv # snd (runOnChange x once m))" .
next
  fix argv
  assume n: "env s = None" and o: "OnChange m = Some argv \<and> argv \<noteq> []"
  from runOnChange_runs [of m argv x once] o cycle_nil_empty [OF n, of x once m]
  show "EvRun argv (Run x argv = None) \<in> set (snd (snd (cycle x once m s [])))" by simp
qed

theorem unchanged_snapshot_is_noop_witness:
  "cycle (quiet Unix) False ((mapping0 ''app'' ''/out/'')\<lparr>OnChange := Some [''reload'']\<rparr>)
      \<lparr>env = Some [(''c'', ''2''), (''b'', ''1'')], files = Map.empty\<rparr>
      [(''app/b'', ''1''), (''app/c'', ''2'')]
     = (Continue, \<lparr>env = Some [(''c'', ''2''), (''b'', ''1'')], files = Map.empty\<rparr>, []) \<and>
   cycle (quiet Unix) False ((mapping0 ''app'' ''/out/'')\<lparr>OnChange := Some [''reload'']\<rparr>)
      (fst (snd (cycle (quiet Unix) False ((mapping0 ''app'' ''/out/'')\<lparr>OnChange := Some [''reload'']\<rparr>)
         \<lparr>env = None, files = Map.empty\<rparr> [(''app/b'', ''1'')])))
      [(''app/b'', ''1'')]
     = (Continue,
        fst (snd (cycle (quiet Unix) False ((mapping0 ''app'' ''/out/'')\<lparr>OnChange := Some [''reload'']\<rparr>)
         \<lparr>env = None, files = Map.empty\<rparr> [(''app/b'', ''1'')])), []) \<and>
   EvRun [''reload''] True
     \<in> set (snd (snd (cycle (quiet Unix) False ((mapping0 ''app'' ''/out/'')\<lparr>OnChange := Some [''reload'']\<rparr>)
         \<lparr>env = None, files = [''/out/b'' \<mapsto> ''1'']\<rparr> [])))"
proof -
  let ?m = "(mapping0 ''app'' ''/out/'')\<lparr>OnChange := Some [''reload'']\<rparr>"
  have 1: "env \<lparr>env = Some [(''c'', ''2''), (''b'', ''1'')], files = Map.empty\<rparr> = Some [(''c'', ''2''), (''b'', ''1'')]
      \<and> distinct (map fst [(''c'', ''2''), (''b'', ''1'')])
      \<and> map_of [(''c'', ''2''), (''b'', ''1'')]
          = map_of (buildEnv (Prefix ?m) [(''app/b'', ''1''), (''app/c'', ''2'')] [])"
    by (auto simp add: mapping0_def TrimPrefix_def TrimLeftSlash_def)
  have 2: "fst (cycle (quiet Unix) False ?m \<lparr>env = None, files = Map.empty\<rparr> [(''app/b'', ''1'')]) = Continue"
    by (simp add: run_defs)
  have 3: "EvRun [''reload''] True
     \<in> set (snd (snd (cycle (quiet Unix) False ?m \<lparr>env = None, files = [''/out/b'' \<mapsto> ''1'']\<rparr> [])))"
  proof -
    have n: "env \<lparr>env = None, files = [''/out/b'' \<mapsto> ''1'']\<rparr> = None" by simp
    have o: "OnChange ?m = Some [''reload''] \<and> [''reload''] \<noteq> []" by (simp add: mapping0_def)
    from unchanged_snapshot_is_noop [of "\<lparr>env = None, files = [''/out/b'' \<mapsto> ''1'']\<rparr>" "[]" ?m "[]"
        "quiet Unix" False, THEN conjunct2, THEN conjunct2, THEN mp, OF n,
        THEN conjunct2, THEN conjunct2, THEN conjunct2, THEN spec, of "[''reload'']", THEN mp, OF o]
    show ?thesis by (simp add: quiet_def)
  qed
  show ?thesis
    using unchanged_snapshot_is_noop [of "\<lparr>env = Some [(''c'', ''2''), (''b'', ''1'')], files = Map.empty\<rparr>"
        "[(''c'', ''2''), (''b'', ''1'')]" ?m
        "[(''app/b'', ''1''), (''app/c'', ''2'')]" "quiet Unix" False] 1
      unchanged_snapshot_is_noop [of "\<lparr>env = None, files = Map.empty\<rparr>" "[]" ?m
        "[(''app/b'', ''1'')]" "quiet Unix" False] 2 3
    by blast
qed

section \<open>The replacement of the environment\<close>

text \<open>
  C6, as stated: the replacement of \<open>env\<close> comes after the deletions and after the
  writes. In the code it comes before the write loop: here the key \<open>c\<close> goes and
  \<open>b\<close> arrives, and the replacement stands between the removal and the first write event.
\<close>

theorem env_replaced_before_writes_counterexample:
  "snd (snd (cycle (quiet Unix) False (mapping0 ''app'' ''/out/'')
      \<lparr>env = Some [(''c'', ''2'')], files = [''/out/c'' \<mapsto> ''2'']\<rparr> [(''app/b'', ''1'')]))
     = [EvRemove ''/out/c'' True, EvSetEnv, EvMk ''/out'' True, EvCreate ''/out/b'' True,
        EvWrite ''/out/b'' ''1'' True, EvSync ''/out/b'' True, EvClose ''/out/b'' True]"
  by (simp add: run_defs)


text \<open>
  C6, amended: in every accepted pass \<open>env\<close> is replaced by the candidate exactly once,
  after the deletions have been attempted and before the writes are; before it the
  trace holds only removals and their failure logs, after it no removal and no second
  replacement. The new state holds the candidate whatever the file operations did, also
  when every create fails.
\<close>

theorem env_replaced_after_deletes:
  assumes "\<not> DeepEqual (env s) (buildEnv (Prefix m) pairs [])"
  shows "env (fst (snd (cycle x once m s pairs))) = Some (buildEnv (Prefix m) pairs []) \<and>
    (\<exists>d r. snd (snd (cycle x once m s pairs)) = d @ EvSetEnv # r
        \<and> list_all isDeleting d
        \<and> list_all (\<lambda>e. \<not> isDeleting e \<and> e \<noteq> EvSetEnv) r)"
proof -
  from cycle_accepted_trace [OF assms, of x once] obtain r where
    r: "snd (snd (cycle x once m s pairs))
            = snd (deleteLoop x (Path m) (buildEnv (Prefix m) pairs []) (entries (env s)) (files s, []))
              @ EvSetEnv # r"
       "list_all (\<lambda>e. \<not> isDeleting e \<and> e \<noteq> EvSetEnv) r" by blast
  from deleteLoop_events [of x "Path m" "buildEnv (Prefix m) pairs []" "entries (env s)" "(files s, [])"]
  have "list_all isDeleting
     (snd (deleteLoop x (Path m) (buildEnv (Prefix m) pairs []) (entries (env s)) (files s, [])))"
    by auto
  with r cycle_accepted_env [OF assms, of x once] show ?thesis by blast
qed

theorem env_replaced_after_deletes_witness:
  "env (fst (snd (cycle ((quiet Unix)\<lparr>Create_err := (\<lambda>p. Some (Err ''permission denied''))\<rparr>) False
      (mapping0 ''app'' ''/out/'')
      \<lparr>env = Some [(''c'', ''2'')], files = [''/out/c'' \<mapsto> ''2'']\<rparr> [(''app/b'', ''1'')])))
     = Some [(''b'', ''1'')] \<and>
   (\<exists>d r. snd (snd (cycle ((quiet Unix)\<lparr>Create_err := (\<lambda>p. Some (Err ''permission denied''))\<rparr>) False
      (mapping0 ''app'' ''/out/'')
      \<lparr>env = Some [(''c'', ''2'')], files = [''/out/c'' \<mapsto> ''2'']\<rparr> [(''app/b'', ''1'')]))
        = d @ EvSetEnv # r
      \<and> list_all isDeleting d \<and> list_all (\<lambda>e. \<not> isDeleting e \<and> e \<noteq> EvSetEnv) r)"
proof -
  have "\<not> DeepEqual (env \<lparr>env = Some [(''c'', ''2'')], files = [''/out/c'' \<mapsto> ''2'']\<rparr>)
          (buildEnv (Prefix (mapping0 ''app'' ''/out/'')) [(''app/b'', ''1'')] [])"
    by (simp add: mapping0_def TrimPrefix_def TrimLeftSlash_def)
  from env_replaced_after_deletes [OF this,
      of "(quiet Unix)\<lparr>Create_err := (\<lambda>p. Some (Err ''permission denied''))\<rparr>" False]
  show ?thesis by (simp add: mapping0_def TrimPrefix_def TrimLeftSlash_def)
qed

section \<open>A failing on-change command\<close>











section \<open>Deletions\<close>

text \<open>Where the separator is the slash, the file of a key is the root path followed by the key.\<close>

lemma keyfile_Unix: "keyfile Unix path k = path @ k"
  by (simp add: keyfile_def isWindows_def)

lemma filter_isDeleting_pass:
  "list_all isDeleting d \<Longrightarrow> list_all (\<lambda>e. \<not> isDeleting e \<and> e \<noteq> EvSetEnv) r \<Longrightarrow>
   filter isDeleting (d @ EvSetEnv # r) = d"
  by (simp add: list_all_iff filter_id_conv filter_empty_conv)

lemma separator_in_keyfile:
  "Path m \<noteq> [] \<Longrightarrow> last (Path m) = PathSeparator pf \<Longrightarrow>
   PathSeparator pf \<in> set (keyfile pf (Path m) k)"
proof -
  assume ne: "Path m \<noteq> []" and l: "last (Path m) = PathSeparator pf"
  then have i: "PathSeparator pf \<in> set (Path m)" by (metis last_in_set)
  show ?thesis
  proof (cases pf)
    case Unix
    with i show ?thesis by (simp add: keyfile_def isWindows_def)
  next
    case Windows
    with i have "CHR 0x5C \<in> set (Path m)" by simp
    then have "(\<lambda>c. if c = CHR ''/'' then CHR 0x5C else c) (CHR 0x5C) \<in> set (ReplaceSlash (Path m @ k))"
      unfolding ReplaceSlash_def set_map by (intro imageI) simp
    with Windows show ?thesis by (simp add: keyfile_def isWindows_def)
  qed
qed

lemma writeKey_no_panic:
  "Path m \<noteq> [] \<Longrightarrow> last (Path m) = PathSeparator (platform x) \<Longrightarrow> fst (writeKey x m kv acc) = False"
  using separator_in_keyfile [of m "platform x" "fst kv"]
  by (simp add: writeKey_eq Let_def sliceToLastIndex_def split: option.splits)

lemma normalizeMapping_normal:
  "normalizeMapping pf m = Some m' \<Longrightarrow> Path m' \<noteq> [] \<and> last (Path m') = PathSeparator pf"
  by (auto simp add: normalizeMapping_def trimPrefixSlash_def addTrailingSeparator_def
      removeTrailingQuote_def PathSeparator_not_quote split: option.splits list.splits if_splits)

lemma no_create_events:
  "filter isCreate (mkParent x dir) = []"
  "filter isCreate (snd (transform x ks v)) = []"
  "filter isCreate (snd (writeSyncClose x kf b fs)) = []"
  by (simp_all add: mkParent_def transform_def writeSyncClose_def file_Write_def
      split: option.splits sum.splits)

lemma writeKey_creates:
  assumes "Path m \<noteq> []" "last (Path m) = PathSeparator (platform x)"
  shows "\<exists>w. snd (snd (writeKey x m kv acc)) = snd acc @ w \<and> list_all isWriting w
      \<and> filter isCreate w = [EvCreate (keyfile (platform x) (Path m) (fst kv))
                                (Create_err x (keyfile (platform x) (Path m) (fst kv)) = None)]"
proof -
  from separator_in_keyfile [OF assms, of "fst kv"] obtain dir where
    dir: "sliceToLastIndex (keyfile (platform x) (Path m) (fst kv)) (PathSeparator (platform x)) = Some dir"
    by (auto simp add: sliceToLastIndex_def)
  show ?thesis
    using dir transform_events [of x "Keystore m" "snd kv"] mkParent_events [of x dir]
      writeSyncClose_events [of x]
    by (auto simp add: writeKey_eq Let_def no_create_events split: option.splits)
qed

lemma writeLoop_creates:
  assumes "Path m \<noteq> []" "last (Path m) = PathSeparator (platform x)"
  shows "fst (writeLoop x m es acc) = False \<and>
    (\<exists>w. snd (snd (writeLoop x m es acc)) = snd acc @ w \<and> list_all isWriting w
      \<and> filter isCreate w = map (\<lambda>kv. EvCreate (keyfile (platform x) (Path m) (fst kv))
                                (Create_err x (keyfile (platform x) (Path m) (fst kv)) = None)) es)"
proof (induction es arbitrary: acc)
  case Nil
  then show ?case by simp
next
  case (Cons kv es)
  obtain acc' where r: "writeKey x m kv acc = (False, acc')"
    using writeKey_no_panic [OF assms, of kv acc] by (cases "writeKey x m kv acc") auto
  from writeKey_creates [OF assms, of kv acc] r obtain w1 where
    w1: "snd acc' = snd acc @ w1" "list_all isWriting w1"
      "filter isCreate w1 = [EvCreate (keyfile (platform x) (Path m) (fst kv))
                                (Create_err x (keyfile (platform x) (Path m) (fst kv)) = None)]"
    by auto
  from Cons.IH [of acc'] obtain w2 where
    w2: "fst (writeLoop x m es acc') = False" "snd (snd (writeLoop x m es acc')) = snd acc' @ w2"
      "list_all isWriting w2"
      "filter isCreate w2 = map (\<lambda>kv. EvCreate (keyfile (platform x) (Path m) (fst kv))
                                (Create_err x (keyfile (platform x) (Path m) (fst kv)) = None)) es"
    by auto
  have "snd (snd (writeLoop x m (kv # es) acc)) = snd acc @ (w1 @ w2)
      \<and> list_all isWriting (w1 @ w2)
      \<and> filter isCreate (w1 @ w2) = map (\<lambda>kv. EvCreate (keyfile (platform x) (Path m) (fst kv))
                                (Create_err x (keyfile (platform x) (Path m) (fst kv)) = None)) (kv # es)"
    using r w1 w2 by simp
  moreover have "fst (writeLoop x m (kv # es) acc) = False"
    using r w2 by simp
  ultimately show ?case by blast
qed

text \<open>
  C7. In an accepted pass the removals attempted are those of the files of the keys of
  the prior environment that the candidate lacks, one per such key and in the order of
  the iteration, each at the key's file (the root path followed by the key, slashes
  turned into backslashes on Windows); a failed removal is followed by its log entry and
  the loop goes on with the next key. A file that existed before the pass and does not
  after it is the file of such a key whose removal succeeded; the file of such a key is
  gone after the pass unless it is also the file of a current key; and a file that is the
  file of neither a deleted nor a current key is as it was. No failed removal ends the
  pass: with a normalised root path the pass replaces the environment, attempts the
  create of the file of every current key, and ends as the on-change step ends, whatever
  the removals did.
\<close>

theorem deletion_precision:
  fixes x :: extern and m :: MappingConfig and s :: rstate and pairs :: KVPairs and once :: bool
  defines "newEnv \<equiv> buildEnv (Prefix m) pairs []"
  defines "deleted \<equiv> filter (\<lambda>k. map_of newEnv k = None) (map fst (entries (env s)))"
  defines "kf \<equiv> keyfile (platform x) (Path m)"
  defines "s' \<equiv> fst (snd (cycle x once m s pairs))"
  defines "removals \<equiv> concat (map (\<lambda>k. if Remove_err x (kf k) = None then [EvRemove (kf k) True]
                          else [EvRemove (kf k) False, EvLogError ''Failed to remove key''])
                  deleted)"
  assumes acc: "\<not> DeepEqual (env s) newEnv"
  shows "filter isDeleting (snd (snd (cycle x once m s pairs))) = removals \<and>
    (\<forall>p. files s p \<noteq> None \<and> files s' p = None
          \<longrightarrow> p \<in> set (map kf deleted) \<and> Remove_err x p = None) \<and>
    (\<forall>k \<in> set deleted. Remove_err x (kf k) = None \<and> kf k \<notin> set (map kf (map fst newEnv))
          \<longrightarrow> files s' (kf k) = None) \<and>
    (\<forall>p. p \<notin> set (map kf deleted) \<and> p \<notin> set (map kf (map fst newEnv))
          \<longrightarrow> files s' p = files s p) \<and>
    (Path m \<noteq> [] \<and> last (Path m) = PathSeparator (platform x)
          \<longrightarrow> fst (cycle x once m s pairs) = fst (runOnChange x once m)
            \<and> env s' = Some newEnv
            \<and> (\<exists>w. snd (snd (cycle x once m s pairs))
                       = removals @ EvSetEnv # w @ snd (runOnChange x once m)
                   \<and> list_all isWriting w
                   \<and> filter isCreate w
                       = map (\<lambda>k. EvCreate (kf k) (Create_err x (kf k) = None)) (map fst newEnv)))"
proof -
  define dl where "dl = deleteLoop x (Path m) newEnv (entries (env s)) (files s, [])"
  have acc': "\<not> DeepEqual (env s) (buildEnv (Prefix m) pairs [])"
    using acc by (simp add: newEnv_def)
  have dtr: "snd dl = removals"
    unfolding dl_def deleted_def kf_def removals_def by (simp add: deleteLoop_trace)
  have dfs: "fst dl p = (if p \<in> set (map kf deleted) \<and> Remove_err x p = None then None
                         else files s p)" for p
    using deleteLoop_files [of x "Path m" newEnv "entries (env s)" "(files s, [])" p]
    by (simp add: dl_def deleted_def kf_def)
  obtain tr0 where fs': "files s' = fst (snd (writeLoop x m newEnv (fst dl, tr0)))"
    using cycle_accepted_files [OF acc', of x once] by (auto simp add: s'_def dl_def newEnv_def)
  have keep: "fst dl p \<noteq> None \<Longrightarrow> files s' p \<noteq> None" for p
    using writeLoop_files_keep [of "(fst dl, tr0)" p x m newEnv] by (simp add: fs')
  have other: "p \<notin> set (map kf (map fst newEnv)) \<Longrightarrow> files s' p = fst dl p" for p
    using writeLoop_files_other [of p x m newEnv "(fst dl, tr0)"]
    by (auto simp add: fs' kf_def image_image)
  have 1: "filter isDeleting (snd (snd (cycle x once m s pairs))) = removals"
  proof -
    from cycle_accepted_trace [OF acc', of x once] obtain r where
      r: "snd (snd (cycle x once m s pairs)) = snd dl @ EvSetEnv # r"
         "list_all (\<lambda>e. \<not> isDeleting e \<and> e \<noteq> EvSetEnv) r"
      by (auto simp add: dl_def newEnv_def)
    have "list_all isDeleting (snd dl)"
      using deleteLoop_events [of x "Path m" newEnv "entries (env s)" "(files s, [])"]
      by (auto simp add: dl_def)
    from filter_isDeleting_pass [OF this r(2)] r(1) show ?thesis
      by (simp only: dtr [symmetric])
  qed
  have 2: "p \<in> set (map kf deleted) \<and> Remove_err x p = None"
    if "files s p \<noteq> None \<and> files s' p = None" for p
  proof (rule ccontr)
    assume "\<not> (p \<in> set (map kf deleted) \<and> Remove_err x p = None)"
    then have "fst dl p = files s p" by (auto simp add: dfs)
    with that keep [of p] show False by simp
  qed
  have 3: "files s' (kf k) = None"
    if "k \<in> set deleted" "Remove_err x (kf k) = None \<and> kf k \<notin> set (map kf (map fst newEnv))" for k
  proof -
    from that have "fst dl (kf k) = None" by (auto simp add: dfs)
    with that other [of "kf k"] show ?thesis by simp
  qed
  have 4: "files s' p = files s p"
    if "p \<notin> set (map kf deleted) \<and> p \<notin> set (map kf (map fst newEnv))" for p
    using that other [of p] by (auto simp add: dfs)
  have 5: "fst (cycle x once m s pairs) = fst (runOnChange x once m)
            \<and> env s' = Some newEnv
            \<and> (\<exists>w. snd (snd (cycle x once m s pairs))
                       = removals @ EvSetEnv # w @ snd (runOnChange x once m)
                   \<and> list_all isWriting w
                   \<and> filter isCreate w
                       = map (\<lambda>k. EvCreate (kf k) (Create_err x (kf k) = None)) (map fst newEnv))"
    if norm: "Path m \<noteq> [] \<and> last (Path m) = PathSeparator (platform x)"
  proof -
    define wl where "wl = writeLoop x m newEnv (fst dl, snd dl @ [EvSetEnv])"
    from writeLoop_creates [of m x newEnv "(fst dl, snd dl @ [EvSetEnv])"] norm obtain w where
      w: "fst wl = False" "snd (snd wl) = removals @ EvSetEnv # w" "list_all isWriting w"
        "filter isCreate w = map (\<lambda>k. EvCreate (kf k) (Create_err x (kf k) = None)) (map fst newEnv)"
      by (auto simp add: wl_def dtr kf_def comp_def)
    have cy: "cycle x once m s pairs =
        (fst (runOnChange x once m), \<lparr>env = Some newEnv, files = fst (snd wl)\<rparr>,
         snd (snd wl) @ snd (runOnChange x once m))"
      using cycle_accepted [OF acc', of x once] w(1)
      by (simp add: Let_def wl_def dl_def newEnv_def)
    have "snd (snd (cycle x once m s pairs)) = removals @ EvSetEnv # w @ snd (runOnChange x once m)"
      using cy w(2) by simp
    with cy w(3,4) show ?thesis by (auto simp add: s'_def)
  qed
  from 1 2 3 4 5 show ?thesis by blast
qed

theorem deletion_precision_witness:
  "filter isDeleting (snd (snd (cycle ((quiet Unix)\<lparr>Remove_err := (\<lambda>p. if p = ''/out/d'' then Some (Err ''busy'') else None)\<rparr>)
        False ((mapping0 ''app'' ''/out/'')\<lparr>OnChange := Some [''reload'']\<rparr>)
        \<lparr>env = Some [(''d'', ''3''), (''c'', ''2''), (''b'', ''1'')],
         files = [''/out/c'' \<mapsto> ''2'', ''/out/b'' \<mapsto> ''1'', ''/out/d'' \<mapsto> ''3'', ''/etc/hosts'' \<mapsto> ''h'']\<rparr>
        [(''app/b'', ''1'')])))
     = [EvRemove ''/out/d'' False, EvLogError ''Failed to remove key'', EvRemove ''/out/c'' True] \<and>
   files (fst (snd (cycle ((quiet Unix)\<lparr>Remove_err := (\<lambda>p. if p = ''/out/d'' then Some (Err ''busy'') else None)\<rparr>)
        False ((mapping0 ''app'' ''/out/'')\<lparr>OnChange := Some [''reload'']\<rparr>)
        \<lparr>env = Some [(''d'', ''3''), (''c'', ''2''), (''b'', ''1'')],
         files = [''/out/c'' \<mapsto> ''2'', ''/out/b'' \<mapsto> ''1'', ''/out/d'' \<mapsto> ''3'', ''/etc/hosts'' \<mapsto> ''h'']\<rparr>
        [(''app/b'', ''1'')]))) ''/out/c'' = None \<and>
   files (fst (snd (cycle ((quiet Unix)\<lparr>Remove_err := (\<lambda>p. if p = ''/out/d'' then Some (Err ''busy'') else None)\<rparr>)
        False ((mapping0 ''app'' ''/out/'')\<lparr>OnChange := Some [''reload'']\<rparr>)
        \<lparr>env = Some [(''d'', ''3''), (''c'', ''2''), (''b'', ''1'')],
         files = [''/out/c'' \<mapsto> ''2'', ''/out/b'' \<mapsto> ''1'', ''/out/d'' \<mapsto> ''3'', ''/etc/hosts'' \<mapsto> ''h'']\<rparr>
        [(''app/b'', ''1'')]))) ''/etc/hosts'' = Some ''h'' \<and>
   fst (cycle ((quiet Unix)\<lparr>Remove_err := (\<lambda>p. if p = ''/out/d'' then Some (Err ''busy'') else None)\<rparr>)
        False ((mapping0 ''app'' ''/out/'')\<lparr>OnChange := Some [''reload'']\<rparr>)
        \<lparr>env = Some [(''d'', ''3''), (''c'', ''2''), (''b'', ''1'')],
         files = [''/out/c'' \<mapsto> ''2'', ''/out/b'' \<mapsto> ''1'', ''/out/d'' \<mapsto> ''3'', ''/etc/hosts'' \<mapsto> ''h'']\<rparr>
        [(''app/b'', ''1'')]) = Continue \<and>
   (\<exists>w. snd (snd (cycle ((quiet Unix)\<lparr>Remove_err := (\<lambda>p. if p = ''/out/d'' then Some (Err ''busy'') else None)\<rparr>)
        False ((mapping0 ''app'' ''/out/'')\<lparr>OnChange := Some [''reload'']\<rparr>)
        \<lparr>env = Some [(''d'', ''3''), (''c'', ''2''), (''b'', ''1'')],
         files = [''/out/c'' \<mapsto> ''2'', ''/out/b'' \<mapsto> ''1'', ''/out/d'' \<mapsto> ''3'', ''/etc/hosts'' \<mapsto> ''h'']\<rparr>
        [(''app/b'', ''1'')]))
      = [EvRemove ''/out/d'' False, EvLogError ''Failed to remove key'', EvRemove ''/out/c'' True]
          @ EvSetEnv # w @ [EvRun [''reload''] True]
     \<and> filter isCreate w = [EvCreate ''/out/b'' True])"
proof -
  let ?x = "(quiet Unix)\<lparr>Remove_err := (\<lambda>p. if p = ''/out/d'' then Some (Err ''busy'') else None)\<rparr>"
  let ?m = "(mapping0 ''app'' ''/out/'')\<lparr>OnChange := Some [''reload'']\<rparr>"
  let ?s = "\<lparr>env = Some [(''d'', ''3''), (''c'', ''2''), (''b'', ''1'')],
         files = [''/out/c'' \<mapsto> ''2'', ''/out/b'' \<mapsto> ''1'', ''/out/d'' \<mapsto> ''3'', ''/etc/hosts'' \<mapsto> ''h'']\<rparr>"
  have b: "buildEnv (Prefix ?m) [(''app/b'', ''1'')] [] = [(''b'', ''1'')]"
    by (simp add: mapping0_def TrimPrefix_def TrimLeftSlash_def)
  then have "\<not> DeepEqual (env ?s) (buildEnv (Prefix ?m) [(''app/b'', ''1'')] [])"
    by simp
  note t = deletion_precision [OF this, of ?x False]
  have 1: "filter isDeleting (snd (snd (cycle ?x False ?m ?s [(''app/b'', ''1'')])))
     = [EvRemove ''/out/d'' False, EvLogError ''Failed to remove key'', EvRemove ''/out/c'' True]"
    using t [THEN conjunct1]
    by (simp add: keyfile_def isWindows_def quiet_def mapping0_def TrimPrefix_def TrimLeftSlash_def)
  have 2: "files (fst (snd (cycle ?x False ?m ?s [(''app/b'', ''1'')]))) ''/out/c'' = None"
    using t [THEN conjunct2, THEN conjunct2, THEN conjunct1, THEN bspec, of "''c''"]
    by (simp add: keyfile_def isWindows_def quiet_def mapping0_def TrimPrefix_def TrimLeftSlash_def)
  have 3: "files (fst (snd (cycle ?x False ?m ?s [(''app/b'', ''1'')]))) ''/etc/hosts'' = Some ''h''"
    using t [THEN conjunct2, THEN conjunct2, THEN conjunct2, THEN conjunct1, THEN spec, of "''/etc/hosts''"]
    by (simp add: keyfile_def isWindows_def quiet_def mapping0_def TrimPrefix_def TrimLeftSlash_def)
  have n: "Path ?m \<noteq> [] \<and> last (Path ?m) = PathSeparator (platform ?x)"
    by (simp add: mapping0_def quiet_def)
  note u = t [THEN conjunct2, THEN conjunct2, THEN conjunct2, THEN conjunct2, THEN mp, OF n]
  have 4: "fst (cycle ?x False ?m ?s [(''app/b'', ''1'')]) = Continue"
    using u [THEN conjunct1] by (simp add: runOnChange_def quiet_def mapping0_def)
  have 5: "\<exists>w. snd (snd (cycle ?x False ?m ?s [(''app/b'', ''1'')]))
      = [EvRemove ''/out/d'' False, EvLogError ''Failed to remove key'', EvRemove ''/out/c'' True]
          @ EvSetEnv # w @ [EvRun [''reload''] True]
     \<and> filter isCreate w = [EvCreate ''/out/b'' True]"
    using u [THEN conjunct2, THEN conjunct2]
    by (auto simp add: keyfile_def isWindows_def quiet_def mapping0_def TrimPrefix_def
        TrimLeftSlash_def runOnChange_def)
  from 1 2 3 4 5 show ?thesis by blast
qed

section \<open>A failing transform\<close>

lemma transform_fails:
  "ks \<noteq> [] \<Longrightarrow>
   (\<exists>e. DecryptTags x v ks = Inl e) \<or>
     (\<exists>d. DecryptTags x v ks = Inr d \<and> ((\<exists>e. Parse x ks d = Some e) \<or> (\<exists>e. Execute x ks d = Inl e))) \<Longrightarrow>
   fst (transform x ks v) = None \<and> (\<exists>ok rest. snd (transform x ks v) = EvDecrypt ok # rest)"
  by (auto simp add: transform_def split: sum.splits option.splits)

lemma writeLoop_truncated:
  assumes path: "Path m \<noteq> []" "last (Path m) = PathSeparator (platform x)"
    and cr: "Create_err x (keyfile (platform x) (Path m) k) = None"
    and tf: "fst (transform x (Keystore m) v) = None"
  shows "(k, v) \<in> set es \<Longrightarrow>
     distinct (map (\<lambda>kv. keyfile (platform x) (Path m) (fst kv)) es) \<Longrightarrow>
     fst (snd (writeLoop x m es acc)) (keyfile (platform x) (Path m) k) = Some []"
proof (induction es arbitrary: acc)
  case Nil
  then show ?case by simp
next
  case (Cons kv es)
  obtain acc' where r: "writeKey x m kv acc = (False, acc')"
    using writeKey_no_panic [OF path, of kv acc] by (cases "writeKey x m kv acc") auto
  then have loop: "writeLoop x m (kv # es) acc = writeLoop x m es acc'" by simp
  show ?case
  proof (cases "kv = (k, v)")
    case True
    have "PathSeparator (platform x) \<in> set (keyfile (platform x) (Path m) k)"
      using separator_in_keyfile [OF path] .
    then have "fst acc' (keyfile (platform x) (Path m) k) = Some []"
      using r True cr tf
      by (auto simp add: writeKey_eq Let_def sliceToLastIndex_def split: option.splits)
    moreover have "keyfile (platform x) (Path m) k
        \<notin> keyfile (platform x) (Path m) ` fst ` set es"
      using Cons.prems(2) True by (auto simp add: image_image)
    ultimately show ?thesis
      using writeLoop_files_other [of "keyfile (platform x) (Path m) k" x m es acc'] loop by simp
  next
    case False
    with Cons.prems have "(k, v) \<in> set es"
      and "distinct (map (\<lambda>kv. keyfile (platform x) (Path m) (fst kv)) es)" by auto
    from Cons.IH [OF this, of acc'] loop show ?thesis by simp
  qed
qed

text \<open>
  C9. With a keystore configured and a normalised root path, the body of the write loop
  for a key creates the key's file, which empties it, before it runs the transform; when
  the create succeeds and decryption, the parsing of the template or its execution fails,
  the body ends without a write event and without a panic, the file is left empty whatever
  it held, and no other file changes. The file is still empty when the write loop of the
  pass ends, provided no other key of the pass has the same file.
\<close>

theorem transform_failure_leaves_empty_file:
  fixes x :: extern and m :: MappingConfig and k v :: string
  defines "kf \<equiv> keyfile (platform x) (Path m) k"
  assumes ks: "Keystore m \<noteq> []"
    and path: "Path m \<noteq> [] \<and> last (Path m) = PathSeparator (platform x)"
    and cr: "Create_err x kf = None"
    and fail: "(\<exists>e. DecryptTags x v (Keystore m) = Inl e) \<or>
       (\<exists>d. DecryptTags x v (Keystore m) = Inr d \<and>
            ((\<exists>e. Parse x (Keystore m) d = Some e) \<or> (\<exists>e. Execute x (Keystore m) d = Inl e)))"
  shows "(\<exists>dir ok rest.
            writeKey x m (k, v) (fs, tr)
               = (False, fs(kf \<mapsto> []), tr @ mkParent x dir @ EvCreate kf True # EvDecrypt ok # rest)
          \<and> (\<forall>p b w. EvWrite p b w \<notin> set (mkParent x dir @ EvCreate kf True # EvDecrypt ok # rest))) \<and>
         (\<forall>es acc. (k, v) \<in> set es \<and> distinct (map (\<lambda>kv. keyfile (platform x) (Path m) (fst kv)) es)
            \<longrightarrow> fst (snd (writeLoop x m es acc)) kf = Some [])"
proof (intro conjI allI impI)
  from transform_fails [OF ks fail] obtain ok rest where
    tf: "fst (transform x (Keystore m) v) = None"
    and tev: "snd (transform x (Keystore m) v) = EvDecrypt ok # rest" by blast
  from separator_in_keyfile [of m "platform x" k] path obtain dir where
    dir: "sliceToLastIndex kf (PathSeparator (platform x)) = Some dir"
    by (auto simp add: sliceToLastIndex_def kf_def)
  have wk: "writeKey x m (k, v) (fs, tr)
      = (False, fs(kf \<mapsto> []), tr @ mkParent x dir @ EvCreate kf True # EvDecrypt ok # rest)"
    using dir cr tf tev unfolding kf_def by (simp add: writeKey_eq Let_def)
  have "list_all isWriting (EvDecrypt ok # rest)"
    using transform_events [of x "Keystore m" v] tev by simp
  moreover have "EvWrite p b w \<notin> set (EvDecrypt ok # rest)" for p b w
    using tev
    by (auto simp add: transform_def split: sum.splits option.splits if_splits)
  moreover have "EvWrite p b w \<notin> set (mkParent x dir)" for p b w
    by (simp add: mkParent_def split: option.splits)
  ultimately have "\<forall>p b w. EvWrite p b w \<notin> set (mkParent x dir @ EvCreate kf True # EvDecrypt ok # rest)"
    by simp
  with wk show "\<exists>dir ok rest.
            writeKey x m (k, v) (fs, tr)
               = (False, fs(kf \<mapsto> []), tr @ mkParent x dir @ EvCreate kf True # EvDecrypt ok # rest)
          \<and> (\<forall>p b w. EvWrite p b w \<notin> set (mkParent x dir @ EvCreate kf True # EvDecrypt ok # rest))"
    by blast
next
  fix es acc
  assume a: "(k, v) \<in> set es \<and> distinct (map (\<lambda>kv. keyfile (platform x) (Path m) (fst kv)) es)"
  from transform_fails [OF ks fail] have tf: "fst (transform x (Keystore m) v) = None" by blast
  from writeLoop_truncated [of m x k v es acc] path cr tf a
  show "fst (snd (writeLoop x m es acc)) kf = Some []"
    by (simp add: kf_def)
qed

theorem transform_failure_leaves_empty_file_witness:
  "(\<exists>dir ok rest.
      writeKey ((quiet Unix)\<lparr>DecryptTags := (\<lambda>v ks. Inl (Err ''no key''))\<rparr>)
          ((mapping0 ''app'' ''/out/'')\<lparr>Keystore := ''/keys''\<rparr>) (''b'', ''secret'')
          ([''/out/b'' \<mapsto> ''old''], [])
        = (False, [''/out/b'' \<mapsto> []],
           mkParent ((quiet Unix)\<lparr>DecryptTags := (\<lambda>v ks. Inl (Err ''no key''))\<rparr>) dir
             @ EvCreate ''/out/b'' True # EvDecrypt ok # rest)) \<and>
   fst (snd (writeLoop ((quiet Unix)\<lparr>DecryptTags := (\<lambda>v ks. Inl (Err ''no key''))\<rparr>)
          ((mapping0 ''app'' ''/out/'')\<lparr>Keystore := ''/keys''\<rparr>)
          [(''b'', ''secret''), (''c'', ''2'')] ([''/out/b'' \<mapsto> ''old''], []))) ''/out/b''
     = Some []"
proof -
  let ?x = "(quiet Unix)\<lparr>DecryptTags := (\<lambda>v ks. Inl (Err ''no key''))\<rparr>"
  let ?m = "(mapping0 ''app'' ''/out/'')\<lparr>Keystore := ''/keys''\<rparr>"
  have ks: "Keystore ?m \<noteq> []" by (simp add: mapping0_def)
  have path: "Path ?m \<noteq> [] \<and> last (Path ?m) = PathSeparator (platform ?x)"
    by (simp add: mapping0_def quiet_def)
  have cr: "Create_err ?x (keyfile (platform ?x) (Path ?m) ''b'') = None"
    by (simp add: quiet_def)
  have fail: "(\<exists>e. DecryptTags ?x ''secret'' (Keystore ?m) = Inl e) \<or>
       (\<exists>d. DecryptTags ?x ''secret'' (Keystore ?m) = Inr d \<and>
            ((\<exists>e. Parse ?x (Keystore ?m) d = Some e) \<or> (\<exists>e. Execute ?x (Keystore ?m) d = Inl e)))"
    by (simp add: quiet_def)
  note t = transform_failure_leaves_empty_file [OF ks path cr fail,
      of "[''/out/b'' \<mapsto> ''old'']" "[]"]
  have kf: "keyfile (platform ?x) (Path ?m) ''b'' = ''/out/b''"
    by (simp add: keyfile_def isWindows_def quiet_def mapping0_def)
  have 1: "\<exists>dir ok rest.
      writeKey ?x ?m (''b'', ''secret'') ([''/out/b'' \<mapsto> ''old''], [])
        = (False, [''/out/b'' \<mapsto> []],
           mkParent ?x dir @ EvCreate ''/out/b'' True # EvDecrypt ok # rest)"
    using t [THEN conjunct1] unfolding kf by auto
  have 2: "fst (snd (writeLoop ?x ?m [(''b'', ''secret''), (''c'', ''2'')]
      ([''/out/b'' \<mapsto> ''old''], []))) ''/out/b'' = Some []"
    using t [THEN conjunct2, THEN spec, THEN spec,
        of "[(''b'', ''secret''), (''c'', ''2'')]" "([''/out/b'' \<mapsto> ''old''], [])"]
    unfolding kf by (simp add: keyfile_def isWindows_def quiet_def mapping0_def)
  from 1 2 show ?thesis by blast
qed

section \<open>The Supervisor's aggregate\<close>

lemma collectCodes_eq:
  "collectCodes n codes failures =
     (if length codes < n then None
      else Some (failures \<or> \<not> list_all (\<lambda>c. c = 0) (take n codes)))"
  by (induction n codes failures rule: collectCodes.induct) auto

lemma Mappings_applyDefaults: "Mappings (applyDefaults config) = Mappings config"
  by (simp add: applyDefaults_def)

lemma length_unitEnds: "length (unitEnds x config inputs) = length (Mappings config)"
  by (simp add: unitEnds_def)

lemma nth_unitEnds:
  "i < length (Mappings config) \<Longrightarrow>
   unitEnds x config inputs ! i
     = fst (mappingUnit x config (Mappings config ! i) (fst (inputs i)) (snd (inputs i)))"
  by (simp add: unitEnds_def)

lemma length_order: "distinct order \<Longrightarrow> set order = {0..<n} \<Longrightarrow> length order = n"
  using distinct_card [of order] by simp

lemma arrivals_all_sent:
  "\<forall>i \<in> set order. \<exists>c. ends ! i = Sent c \<Longrightarrow>
   length (arrivals ends order) = length order \<and>
   (list_all (\<lambda>c. c = 0) (arrivals ends order) \<longleftrightarrow> (\<forall>i \<in> set order. ends ! i = Sent 0))"
  by (induction order) (auto simp add: arrivals_def)

lemma arrivals_short:
  "i \<in> set order \<Longrightarrow> ends ! i = UnitBlocked \<Longrightarrow> length (arrivals ends order) < length order"
proof (induction order)
  case Nil
  then show ?case by simp
next
  case (Cons j order)
  have le: "length (arrivals ends order) \<le> length order" for order
    by (induction order) (auto simp add: arrivals_def split: unitEnd.splits)
  show ?case
  proof (cases "i = j")
    case True
    with Cons.prems le [of order] show ?thesis by (simp add: arrivals_def)
  next
    case False
    with Cons have "length (arrivals ends order) < length order" by simp
    then show ?thesis by (simp add: arrivals_def split: unitEnd.splits)
  qed
qed

text \<open>
  C8. Each unit ends as its own \<open>mappingUnit\<close> ends on its own mapping, files and
  messages: nothing of what the others send or return reaches it, and the Supervisor has
  no means to stop one. \<open>watchAndExec\<close> returns only when every unit has sent its code:
  then the result is 0 if every code is 0 and -1 otherwise, whatever the order of
  arrival; while a unit never sends, it waits, also after a nonzero code has arrived. The
  one thing that ends the units from outside is an unrecovered panic of one of them, which
  ends the process: then \<open>watchAndExec\<close> returns nothing.
\<close>

theorem watchAndExec_aggregate:
  fixes x :: extern and config :: WatchConfig and inputs :: "nat \<Rightarrow> filemap \<times> msg list"
    and order :: "nat list"
  defines "n \<equiv> length (Mappings config)"
  defines "ends \<equiv> unitEnds x (applyDefaults config) inputs"
  assumes ord: "distinct order \<and> set order = {0..<n}"
  shows "(\<forall>i<n. ends ! i = fst (mappingUnit x (applyDefaults config) (Mappings config ! i)
                              (fst (inputs i)) (snd (inputs i)))) \<and>
         watchAndExec x config inputs order =
           (if \<exists>i<n. ends ! i = UnitPanicked then Crash
            else if \<exists>i<n. ends ! i = UnitBlocked then Hang
            else Exit (if \<forall>i<n. ends ! i = Sent 0 then 0 else - 1))"
proof
  show "\<forall>i<n. ends ! i = fst (mappingUnit x (applyDefaults config) (Mappings config ! i)
                              (fst (inputs i)) (snd (inputs i)))"
    using nth_unitEnds [of _ "applyDefaults config" x inputs]
    by (simp add: n_def ends_def Mappings_applyDefaults)
next
  have len: "length ends = n"
    by (simp add: ends_def n_def length_unitEnds Mappings_applyDefaults)
  have lo: "length order = n"
    using ord length_order by blast
  have so: "set order = {0..<n}" using ord by simp
  have pan: "UnitPanicked \<in> set ends \<longleftrightarrow> (\<exists>i<n. ends ! i = UnitPanicked)"
    using len by (auto simp add: in_set_conv_nth)
  have w: "watchAndExec x config inputs order =
      (if UnitPanicked \<in> set ends then Crash
       else (case collectCodes n (arrivals ends order) False of
               None \<Rightarrow> Hang
             | Some failures \<Rightarrow> Exit (if failures then - 1 else 0)))"
    by (simp add: watchAndExec_def Let_def ends_def n_def Mappings_applyDefaults)
  show "watchAndExec x config inputs order =
           (if \<exists>i<n. ends ! i = UnitPanicked then Crash
            else if \<exists>i<n. ends ! i = UnitBlocked then Hang
            else Exit (if \<forall>i<n. ends ! i = Sent 0 then 0 else - 1))"
  proof (cases "\<exists>i<n. ends ! i = UnitPanicked")
    case True
    with w pan show ?thesis by simp
  next
    case nopanic: False
    show ?thesis
    proof (cases "\<exists>i<n. ends ! i = UnitBlocked")
      case True
      then obtain i where i: "i < n" "ends ! i = UnitBlocked" by blast
      then have "i \<in> set order" using so by simp
      from arrivals_short [OF this i(2)] lo
      have "length (arrivals ends order) < n" by simp
      with w pan nopanic True show ?thesis by (simp add: collectCodes_eq)
    next
      case False
      have all: "\<forall>i \<in> set order. \<exists>c. ends ! i = Sent c"
      proof
        fix i assume "i \<in> set order"
        then have "i < n" using so by simp
        with nopanic False show "\<exists>c. ends ! i = Sent c"
          by (cases "ends ! i") auto
      qed
      from arrivals_all_sent [OF all] lo so
      have "length (arrivals ends order) = n"
        and "list_all (\<lambda>c. c = 0) (arrivals ends order) \<longleftrightarrow> (\<forall>i<n. ends ! i = Sent 0)"
        by auto
      with w pan nopanic False show ?thesis by (simp add: collectCodes_eq)
    qed
  qed
qed

theorem watchAndExec_aggregate_witness:
  "watchAndExec ((quiet Unix)\<lparr>Run := (\<lambda>argv. if argv = [''fail''] then Some (Err ''exit status 1'') else None)\<rparr>)
      (config0 True [(mapping0 ''app'' ''/a/'')\<lparr>OnChange := Some [''fail'']\<rparr>,
                     (mapping0 ''web'' ''/b/'')\<lparr>OnChange := Some [''reload'']\<rparr>])
      (\<lambda>i. (Map.empty, [PairsMsg [(''k'', ''1'')]])) [1, 0] = Exit (- 1) \<and>
   mappingUnit ((quiet Unix)\<lparr>Run := (\<lambda>argv. if argv = [''fail''] then Some (Err ''exit status 1'') else None)\<rparr>)
      (applyDefaults (config0 True [(mapping0 ''app'' ''/a/'')\<lparr>OnChange := Some [''fail'']\<rparr>,
                     (mapping0 ''web'' ''/b/'')\<lparr>OnChange := Some [''reload'']\<rparr>]))
      ((mapping0 ''web'' ''/b/'')\<lparr>OnChange := Some [''reload'']\<rparr>) Map.empty [PairsMsg [(''k'', ''1'')]]
     = (Sent 0, \<lparr>env = Some [(''k'', ''1'')], files = [''/b/k'' \<mapsto> ''1'']\<rparr>,
        [EvWatchStarted ''web'' ''/b/'', EvSetEnv, EvMk ''/b'' True, EvCreate ''/b/k'' True,
         EvWrite ''/b/k'' ''1'' True, EvSync ''/b/k'' True, EvClose ''/b/k'' True,
         EvRun [''reload''] True, EvCloseQuit]) \<and>
   watchAndExec (quiet Unix)
      (config0 True [(mapping0 ''app'' ''/a/'')\<lparr>OnChange := Some [''reload'']\<rparr>, mapping0 ''web'' ''/b/''])
      (\<lambda>i. (Map.empty, [PairsMsg [(''k'', ''1'')]])) [0, 1] = Exit 0 \<and>
   watchAndExec ((quiet Unix)\<lparr>Run := (\<lambda>argv. if argv = [''fail''] then Some (Err ''exit status 1'') else None)\<rparr>)
      (config0 True [(mapping0 ''app'' ''/a/'')\<lparr>OnChange := Some [''fail'']\<rparr>, mapping0 ''web'' ''/b/''])
      (\<lambda>i. (Map.empty, if i = 0 then [PairsMsg [(''k'', ''1'')]] else [])) [0, 1] = Hang \<and>
   watchAndExec (quiet Unix)
      (config0 True [mapping0 ''app'' ''/a/'', mapping0 [] ''/b/''])
      (\<lambda>i. (Map.empty, [PairsMsg [(''k'', ''1'')]])) [0, 1] = Crash"
proof -
  let ?x = "(quiet Unix)\<lparr>Run := (\<lambda>argv. if argv = [''fail''] then Some (Err ''exit status 1'') else None)\<rparr>"
  let ?in = "\<lambda>i::nat. (Map.empty :: filemap, [PairsMsg [(''k'', ''1'')]])"
  let ?in2 = "\<lambda>i::nat. (Map.empty :: filemap, if i = 0 then [PairsMsg [(''k'', ''1'')]] else [])"
  let ?c1 = "config0 True [(mapping0 ''app'' ''/a/'')\<lparr>OnChange := Some [''fail'']\<rparr>,
                     (mapping0 ''web'' ''/b/'')\<lparr>OnChange := Some [''reload'']\<rparr>]"
  let ?c2 = "config0 True [(mapping0 ''app'' ''/a/'')\<lparr>OnChange := Some [''reload'']\<rparr>, mapping0 ''web'' ''/b/'']"
  let ?c3 = "config0 True [(mapping0 ''app'' ''/a/'')\<lparr>OnChange := Some [''fail'']\<rparr>, mapping0 ''web'' ''/b/'']"
  let ?c4 = "config0 True [mapping0 ''app'' ''/a/'', mapping0 [] ''/b/'']"
  have o1: "distinct [1, 0::nat] \<and> set [1, 0::nat] = {0..<length (Mappings (config0 True [a, b]))}" for a b
    by (auto simp add: config0_def)
  have o2: "distinct [0, 1::nat] \<and> set [0, 1::nat] = {0..<length (Mappings (config0 True [a, b]))}" for a b
    by (auto simp add: config0_def)
  have 1: "watchAndExec ?x ?c1 ?in [1, 0] = Exit (- 1)"
    using watchAndExec_aggregate [where x = ?x and config = ?c1 and inputs = ?in and order = "[1, 0]",
        OF o1, THEN conjunct2]
    by (simp add: unitEnds_def mappingUnit_def prepareMapping_def applyDefaults_def run_defs
        All_less_Suc Ex_less_Suc)
  have 2: "watchAndExec (quiet Unix) ?c2 ?in [0, 1] = Exit 0"
    using watchAndExec_aggregate [where x = "quiet Unix" and config = ?c2 and inputs = ?in
          and order = "[0, 1]", OF o2, THEN conjunct2]
    by (simp add: unitEnds_def mappingUnit_def prepareMapping_def applyDefaults_def run_defs
        All_less_Suc Ex_less_Suc)
  have 3: "watchAndExec ?x ?c3 ?in2 [0, 1] = Hang"
    using watchAndExec_aggregate [where x = ?x and config = ?c3 and inputs = ?in2
          and order = "[0, 1]", OF o2, THEN conjunct2]
    by (simp add: unitEnds_def mappingUnit_def prepareMapping_def applyDefaults_def run_defs
        All_less_Suc Ex_less_Suc)
  have 4: "watchAndExec (quiet Unix) ?c4 ?in [0, 1] = Crash"
    using watchAndExec_aggregate [where x = "quiet Unix" and config = ?c4 and inputs = ?in
          and order = "[0, 1]", OF o2, THEN conjunct2]
    by (simp add: unitEnds_def mappingUnit_def prepareMapping_def applyDefaults_def run_defs
        All_less_Suc Ex_less_Suc)
  have 5: "mappingUnit ?x (applyDefaults ?c1)
      ((mapping0 ''web'' ''/b/'')\<lparr>OnChange := Some [''reload'']\<rparr>) Map.empty [PairsMsg [(''k'', ''1'')]]
     = (Sent 0, \<lparr>env = Some [(''k'', ''1'')], files = [''/b/k'' \<mapsto> ''1'']\<rparr>,
        [EvWatchStarted ''web'' ''/b/'', EvSetEnv, EvMk ''/b'' True, EvCreate ''/b/k'' True,
         EvWrite ''/b/k'' ''1'' True, EvSync ''/b/k'' True, EvClose ''/b/k'' True,
         EvRun [''reload''] True, EvCloseQuit])"
    by (simp add: mappingUnit_def prepareMapping_def applyDefaults_def run_defs)
  from 1 2 3 4 5 show ?thesis by blast
qed

end
